theory Spec2Isabelle
  imports Complex_Main "HOL-Library.Word"
begin

unbundle bit_operations_syntax

section \<open>The receiver sources\<close>

text \<open>
  The repository holds three receivers of the same packet protocol, side by side:
  \<^item> \<^verbatim>\<open>esp_audio_reciver.cpp\<close> (\<open>recive_full\<close>, \<open>int32_to_24_bytes_little_endian\<close>,
    \<open>tcp_server_loop\<close>), the rewrite in progress;
  \<^item> \<^verbatim>\<open>esp_receiver_and_web_combined.cpp\<close> (\<open>recv_all\<close>, \<open>int32_left24_to_3bytes_le\<close>,
    \<open>tcp_audio_receiver_server_loop\<close>, \<open>finalize_wav_header\<close>, \<open>main\<close>);
  \<^item> \<^verbatim>\<open>code_reciver_fixed.cpp\<close> (\<open>recv_all\<close>, \<open>tcp_server_loop\<close>).
  Definitions keep the names of the source. Where two files use one name for different
  code, the definition taken from \<^verbatim>\<open>esp_audio_reciver.cpp\<close> ends in \<open>_reciver\<close> and the one
  taken from \<^verbatim>\<open>code_reciver_fixed.cpp\<close> ends in \<open>_fixed\<close>; a local variable of a loop body
  that is modelled as a function keeps the variable's name.

  Bytes are \<open>uint8_t\<close>, that is \<open>8 word\<close>; \<open>uint16_t\<close>, \<open>uint32_t\<close>, \<open>uint64_t\<close> are words of
  that width, and \<open>int32_t\<close> is a \<open>32 word\<close> read with \<open>sint\<close>.
\<close>

type_synonym byte = "8 word"

subsection \<open>Configuration constants\<close>

definition HEADER_MAGIC :: "32 word" where
  "HEADER_MAGIC = 0x45535032"

definition HEADER_SIZE :: nat where
  "HEADER_SIZE = 34"

definition EXPECTED_SAMPLE_RATE :: "32 word" where
  "EXPECTED_SAMPLE_RATE = 48000"

definition EXPECTED_CHANNEL_COUNT :: "8 word" where
  "EXPECTED_CHANNEL_COUNT = 1"

definition OUT_BYTES_PER_SAMPLE :: "8 word" where
  "OUT_BYTES_PER_SAMPLE = 3"

definition INT32_MAX :: int where
  "INT32_MAX = 2147483647"

definition INT32_MIN :: int where
  "INT32_MIN = - 2147483648"

subsection \<open>Sample converter\<close>

text \<open>
  \<open>int32_left24_to_3bytes_le\<close> (\<^verbatim>\<open>esp_receiver_and_web_combined.cpp\<close>): an arithmetic shift
  right by 8 of the \<open>int32_t\<close>, the cast to \<open>uint32_t\<close>, the mask \<open>0xFFFFFF\<close>, and three bytes
  taken with \<open>& 0xFF\<close> and narrowed to \<open>uint8_t\<close>.
\<close>

definition int32_left24_to_3bytes_le :: "32 word \<Rightarrow> byte list" where
  "int32_left24_to_3bytes_le sample_int32_left24 =
     (let sample_24 = signed_drop_bit 8 sample_int32_left24;
          u24 = sample_24 AND 0xFFFFFF
      in [ucast (u24 AND 0xFF),
          ucast (drop_bit 8 u24 AND 0xFF),
          ucast (drop_bit 16 u24 AND 0xFF)])"

text \<open>
  \<open>int32_to_24_bytes_little_endian\<close> (\<^verbatim>\<open>esp_audio_reciver.cpp\<close>): the same steps, but the mask
  is written \<open>0xfffffff\<close>, seven hexadecimal digits.
\<close>

definition int32_to_24_bytes_little_endian :: "32 word \<Rightarrow> byte list" where
  "int32_to_24_bytes_little_endian sound_32_bits =
     (let sound_24_bits = signed_drop_bit 8 sound_32_bits;
          casted_sound_24_bits = sound_24_bits AND 0xFFFFFFF
      in [ucast (casted_sound_24_bits AND 0xFF),
          ucast (drop_bit 8 casted_sound_24_bits AND 0xFF),
          ucast (drop_bit 16 casted_sound_24_bits AND 0xFF)])"

text \<open>
  A \<open>double\<close> is modelled by the real number it denotes; the gain is taken to be finite.
  \<open>std::llround\<close> rounds to the nearest integer, halfway cases away from zero.
\<close>

definition llround :: "real \<Rightarrow> int" where
  "llround x = (if 0 \<le> x then \<lfloor>x + 1 / 2\<rfloor> else - \<lfloor>- x + 1 / 2\<rfloor>)"

text \<open>
  The machine's product of two \<open>double\<close>s is the exact product rounded to the nearest
  \<open>double\<close>, a halfway case to the neighbour whose significand is even. A \<open>double\<close> has 53
  significant bits: between \<open>2 ^ e\<close> and \<open>2 ^ (e + 1)\<close> the \<open>double\<close>s are the multiples of
  \<open>2 ^ (e - 52)\<close>, and from \<open>2 ^ - 1022\<close> down to zero those of \<open>2 ^ - 1074\<close>. (An overflow
  to infinity has no real to stand for it: there the model keeps a finite value, which
  lies beyond the bounds of the clamp as infinity does.)
\<close>

definition round_half_even :: "real \<Rightarrow> int" where
  "round_half_even x =
     (let f = \<lfloor>x\<rfloor> in
      if x - real_of_int f < 1 / 2 then f
      else if 1 / 2 < x - real_of_int f then f + 1
      else if even f then f else f + 1)"

definition double_ulp_exponent :: "real \<Rightarrow> int" where
  "double_ulp_exponent x = max \<lfloor>log 2 \<bar>x\<bar>\<rfloor> (- 1022) - 52"

definition round_to_double :: "real \<Rightarrow> real" where
  "round_to_double x =
     (if x = 0 then 0
      else let k = double_ulp_exponent x in
        if 0 \<le> k then real_of_int (round_half_even (x / 2 ^ nat k)) * 2 ^ nat k
        else real_of_int (round_half_even (x * 2 ^ nat (- k))) / 2 ^ nat (- k))"

text \<open>
  \<open>double scaled = (double)sample_int32 * gain_now\<close>: the conversion of an \<open>int32_t\<close> to
  \<open>double\<close> is exact, the product is rounded.
\<close>

definition scaled :: "32 word \<Rightarrow> real \<Rightarrow> real" where
  "scaled sample_int32 gain_now = round_to_double (real_of_int (sint sample_int32) * gain_now)"

text \<open>
  The clamp of \<^verbatim>\<open>esp_receiver_and_web_combined.cpp\<close> and \<^verbatim>\<open>code_reciver_fixed.cpp\<close>: two
  \<open>if\<close> statements in a row.
\<close>

definition clamp_scaled :: "real \<Rightarrow> real" where
  "clamp_scaled x =
     (let x1 = (if x > real_of_int INT32_MAX then real_of_int INT32_MAX else x);
          x2 = (if x1 < real_of_int INT32_MIN then real_of_int INT32_MIN else x1)
      in x2)"

text \<open>The clamp of \<^verbatim>\<open>esp_audio_reciver.cpp\<close>: \<open>if\<close>, \<open>else if\<close>.\<close>

definition clamp_scaled_reciver :: "real \<Rightarrow> real" where
  "clamp_scaled_reciver x =
     (if x > real_of_int INT32_MAX then real_of_int INT32_MAX
      else if x < real_of_int INT32_MIN then real_of_int INT32_MIN
      else x)"

text \<open>
  \<open>scaled_i32 = (int32_t)std::llround(scaled)\<close>: the \<open>long long\<close> is narrowed to 32 bits.
\<close>

definition scaled_i32 :: "real \<Rightarrow> 32 word" where
  "scaled_i32 x = word_of_int (llround (clamp_scaled x))"

text \<open>
  The three bytes one frame contributes, from the value of the product on
  (\<open>tcp_audio_receiver_server_loop\<close>, the body of the loop over the frames).
\<close>

definition three_bytes :: "real \<Rightarrow> byte list" where
  "three_bytes x = int32_left24_to_3bytes_le (scaled_i32 x)"

definition convert_sample :: "32 word \<Rightarrow> real \<Rightarrow> byte list" where
  "convert_sample sample_int32 gain_now = three_bytes (scaled sample_int32 gain_now)"

text \<open>
  The same body in \<open>tcp_server_loop\<close> of \<^verbatim>\<open>esp_audio_reciver.cpp\<close>: the shift, the mask
  \<open>0xFFFFFF\<close> and the three bytes are written in the loop.
\<close>

definition three_bytes_reciver :: "real \<Rightarrow> byte list" where
  "three_bytes_reciver x =
     (let scaled_int32 = (word_of_int (llround (clamp_scaled_reciver x)) :: 32 word);
          scaled_24bit = signed_drop_bit 8 scaled_int32;
          unsigned_24bit_masked_sound = scaled_24bit AND 0xFFFFFF
      in [ucast (unsigned_24bit_masked_sound AND 0xFF),
          ucast (drop_bit 8 unsigned_24bit_masked_sound AND 0xFF),
          ucast (drop_bit 16 unsigned_24bit_masked_sound AND 0xFF)])"

definition convert_sample_reciver :: "32 word \<Rightarrow> real \<Rightarrow> byte list" where
  "convert_sample_reciver s gain_factor = three_bytes_reciver (scaled s gain_factor)"

text \<open>
  And in \<open>tcp_server_loop\<close> of \<^verbatim>\<open>code_reciver_fixed.cpp\<close>: the clamp with two \<open>if\<close>s, then
  the shift, the mask and the bytes in the loop.
\<close>

definition three_bytes_fixed :: "real \<Rightarrow> byte list" where
  "three_bytes_fixed x =
     (let s32_scaled = (word_of_int (llround (clamp_scaled x)) :: 32 word);
          s24 = signed_drop_bit 8 s32_scaled;
          u24 = s24 AND 0xFFFFFF
      in [ucast (u24 AND 0xFF),
          ucast (drop_bit 8 u24 AND 0xFF),
          ucast (drop_bit 16 u24 AND 0xFF)])"

definition convert_sample_fixed :: "32 word \<Rightarrow> real \<Rightarrow> byte list" where
  "convert_sample_fixed s32 gf = three_bytes_fixed (scaled s32 gf)"

subsection \<open>The converter's contract, in the specification's words\<close>

text \<open>
  \<open>(S >> 8) & 0xFFFFFF\<close> on the integer \<open>S\<close>: an arithmetic shift right by 8 is the division
  by \<open>2 ^ 8\<close> rounded towards minus infinity, and the mask keeps the value modulo \<open>2 ^ 24\<close>.
\<close>

definition spec_sample24 :: "int \<Rightarrow> int" where
  "spec_sample24 S = (S div 2 ^ 8) mod 2 ^ 24"

text \<open>A 24-bit value packed little-endian into three bytes, least significant first.\<close>

definition spec_pack_le3 :: "int \<Rightarrow> int list" where
  "spec_pack_le3 v = [v mod 256, (v div 256) mod 256, (v div 65536) mod 256]"

subsection \<open>The output file\<close>

text \<open>
  A \<open>FILE*\<close> is the bytes of the file and the position of the next write. \<open>fwrite\<close>
  overwrites from the position on and extends the file as needed (a gap left by a seek
  past the end reads as zeros); \<open>fseek\<close> moves the position. Writes are taken to succeed
  in full.
\<close>

record file_stream =
  bytes :: "byte list"
  position :: nat

text \<open>\<open>fopen(name, "wb+")\<close> truncates; \<open>fopen(name, "rb+")\<close> opens what is there.\<close>

definition fopen_wb :: file_stream where
  "fopen_wb = \<lparr>bytes = [], position = 0\<rparr>"

definition fopen_rb :: "byte list \<Rightarrow> file_stream" where
  "fopen_rb content = \<lparr>bytes = content, position = 0\<rparr>"

definition fwrite :: "byte list \<Rightarrow> file_stream \<Rightarrow> file_stream" where
  "fwrite bs f =
     \<lparr>bytes = take (position f) (bytes f) @ replicate (position f - length (bytes f)) 0
               @ bs @ drop (position f + length bs) (bytes f),
      position = position f + length bs\<rparr>"

definition fseek_set :: "file_stream \<Rightarrow> nat \<Rightarrow> file_stream" where
  "fseek_set f offset = f\<lparr>position := offset\<rparr>"

definition fseek_end :: "file_stream \<Rightarrow> file_stream" where
  "fseek_end f = f\<lparr>position := length (bytes f)\<rparr>"

definition write_u32_le :: "file_stream \<Rightarrow> 32 word \<Rightarrow> file_stream" where
  "write_u32_le file_pointer v =
     fwrite [ucast (v AND 0xFF), ucast (drop_bit 8 v AND 0xFF),
             ucast (drop_bit 16 v AND 0xFF), ucast (drop_bit 24 v AND 0xFF)] file_pointer"

definition write_u16_le :: "file_stream \<Rightarrow> 16 word \<Rightarrow> file_stream" where
  "write_u16_le file_pointer v =
     fwrite [ucast (v AND 0xFF), ucast (drop_bit 8 v AND 0xFF)] file_pointer"

text \<open>
  \<open>write_wav_header_placeholder\<close> of \<^verbatim>\<open>esp_receiver_and_web_combined.cpp\<close>: the chunk tags
  \<open>"RIFF"\<close>, \<open>"WAVE"\<close>, \<open>"fmt "\<close> and \<open>"data"\<close> as their ASCII bytes, both sizes zero.
\<close>

definition write_wav_header_placeholder ::
  "file_stream \<Rightarrow> 32 word \<Rightarrow> 16 word \<Rightarrow> file_stream" where
  "write_wav_header_placeholder file_pointer sample_rate channels =
     (let f1 = fwrite [0x52, 0x49, 0x46, 0x46] file_pointer;
          f2 = write_u32_le f1 0;
          f3 = fwrite [0x57, 0x41, 0x56, 0x45] f2;
          f4 = fwrite [0x66, 0x6D, 0x74, 0x20] f3;
          f5 = write_u32_le f4 16;
          f6 = write_u16_le f5 1;
          f7 = write_u16_le f6 channels;
          f8 = write_u32_le f7 sample_rate;
          byte_rate = sample_rate * ucast channels * ucast OUT_BYTES_PER_SAMPLE;
          f9 = write_u32_le f8 byte_rate;
          block_align = channels * ucast OUT_BYTES_PER_SAMPLE;
          f10 = write_u16_le f9 block_align;
          f11 = write_u16_le f10 (ucast OUT_BYTES_PER_SAMPLE * 8);
          f12 = fwrite [0x64, 0x61, 0x74, 0x61] f11;
          f13 = write_u32_le f12 0
      in f13)"

text \<open>
  \<open>finalize_wav_header\<close> of the same file. \<open>data_bytes\<close> and \<open>riff_size\<close> are \<open>uint32_t\<close>:
  the products and sums wrap modulo \<open>2 ^ 32\<close>.
\<close>

definition finalize_wav_header ::
  "file_stream \<Rightarrow> 32 word \<Rightarrow> 16 word \<Rightarrow> 32 word \<Rightarrow> file_stream" where
  "finalize_wav_header file_pointer total_samples_written channels sample_rate =
     (let data_bytes = total_samples_written * ucast channels * ucast OUT_BYTES_PER_SAMPLE;
          riff_size = 4 + (8 + 16) + (8 + data_bytes);
          f1 = fseek_set file_pointer 4;
          f2 = write_u32_le f1 riff_size;
          f3 = fseek_set f2 40;
          f4 = write_u32_le f3 data_bytes
      in f4)"

text \<open>
  The last block of \<open>main\<close>: the file is reopened with \<open>"rb+"\<close> and, when that succeeds,
  patched with the \<open>int\<close> counter cast to \<open>uint32_t\<close>, one channel, 48000 Hz. The file
  system's entry for the output file is \<open>None\<close> when the file does not exist.
\<close>

definition main_finalize :: "byte list option \<Rightarrow> int \<Rightarrow> byte list option" where
  "main_finalize output_wav total_samples_written_count =
     (case output_wav of
        None \<Rightarrow> None
      | Some content \<Rightarrow>
          Some (bytes (finalize_wav_header (fopen_rb content)
                  (word_of_int total_samples_written_count)
                  (ucast EXPECTED_CHANNEL_COUNT) EXPECTED_SAMPLE_RATE)))"

text \<open>The file as a connection leaves it before any packet: the 44 bytes of the header.\<close>

definition placeholder_file :: "byte list" where
  "placeholder_file =
     bytes (write_wav_header_placeholder fopen_wb EXPECTED_SAMPLE_RATE
              (ucast EXPECTED_CHANNEL_COUNT))"

text \<open>
  The reading of a header field, in the specification's words: the 32-bit little-endian
  value at byte offset \<open>k\<close> of a file.
\<close>

definition u32_le_at :: "nat \<Rightarrow> byte list \<Rightarrow> nat" where
  "u32_le_at k bs =
     unat (bs ! k) + 256 * unat (bs ! (k + 1)) + 65536 * unat (bs ! (k + 2))
       + 16777216 * unat (bs ! (k + 3))"

subsection \<open>The socket\<close>

text \<open>
  What a connected socket will deliver, as the list of the outcomes of the coming calls
  of \<open>recv\<close>: a chunk of bytes that has arrived, a call interrupted by a signal (\<open>EINTR\<close>),
  or a failure with another \<open>errno\<close>. After the last event the peer has closed and \<open>recv\<close>
  returns 0; an empty chunk stands for the same return value. A call never returns more
  than the bytes asked for: what is left of a chunk stays for the next call.
\<close>

datatype recv_event = Data "byte list" | Eintr | Error

type_synonym socket = "recv_event list"

datatype recv_result = Received "byte list" | Interrupted | Failed

fun recv :: "socket \<Rightarrow> nat \<Rightarrow> recv_result \<times> socket" where
  "recv [] n = (Received [], [])"
| "recv (Eintr # sock) n = (Interrupted, sock)"
| "recv (Error # sock) n = (Failed, sock)"
| "recv (Data bs # sock) n =
     (if length bs \<le> n then (Received bs, sock)
      else (Received (take n bs), Data (drop n bs) # sock))"

text \<open>What is still to be read from a socket, counted for the termination of the loops.\<close>

fun event_size :: "recv_event \<Rightarrow> nat" where
  "event_size (Data bs) = Suc (length bs)"
| "event_size Eintr = 1"
| "event_size Error = 1"

definition sock_size :: "socket \<Rightarrow> nat" where
  "sock_size sock = sum_list (map event_size sock)"

text \<open>\<open>recv\<close> writes the bytes it returns into the buffer at the offset it is given.\<close>

definition store :: "byte list \<Rightarrow> nat \<Rightarrow> byte list \<Rightarrow> byte list" where
  "store buffer offset bs = take offset buffer @ bs @ drop (offset + length bs) buffer"

text \<open>
  \<open>recv_all\<close> (\<^verbatim>\<open>esp_receiver_and_web_combined.cpp\<close>, and the same text in
  \<^verbatim>\<open>code_reciver_fixed.cpp\<close>). The result is the return value, the buffer and the socket
  afterwards.
\<close>

function recv_all_loop ::
  "socket \<Rightarrow> byte list \<Rightarrow> nat \<Rightarrow> nat \<Rightarrow> bool \<times> byte list \<times> socket" where
  "recv_all_loop sockfd buffer total_received required_bytes =
     (if total_received < required_bytes then
        (case recv sockfd (required_bytes - total_received) of
           (Interrupted, sockfd') \<Rightarrow> recv_all_loop sockfd' buffer total_received required_bytes
         | (Failed, sockfd') \<Rightarrow> (False, buffer, sockfd')
         | (Received bs, sockfd') \<Rightarrow>
             if length bs = 0 then (False, buffer, sockfd')
             else recv_all_loop sockfd' (store buffer total_received bs)
                    (total_received + length bs) required_bytes)
      else (True, buffer, sockfd))"
  by pat_completeness auto

text \<open>Every call that returns bytes or is interrupted uses up a part of what is to come.\<close>

lemma recv_size:
  "recv sock n = (r, sock') \<Longrightarrow> 0 < n \<Longrightarrow> r \<noteq> Received [] \<Longrightarrow>
   sock_size sock' < sock_size sock"
  by (cases "(sock, n)" rule: recv.cases) (auto simp: sock_size_def split: if_splits)

lemma recv_size_le:
  "recv sock n = (r, sock') \<Longrightarrow> sock_size sock' \<le> sock_size sock"
  by (cases "(sock, n)" rule: recv.cases) (auto simp: sock_size_def split: if_splits)

lemma recv_size_sym:
  "(r, sock') = recv sock n \<Longrightarrow> 0 < n \<Longrightarrow> r \<noteq> Received [] \<Longrightarrow>
   sock_size sock' < sock_size sock"
  using recv_size [of sock n r sock'] by simp

termination recv_all_loop
  apply (relation "measure (\<lambda>(sockfd, buffer, total_received, required_bytes). sock_size sockfd)")
    apply simp
   apply (simp add: recv_size_sym)
  apply (simp add: recv_size_sym)
  done

declare recv_all_loop.simps [simp del]

definition recv_all :: "socket \<Rightarrow> byte list \<Rightarrow> nat \<Rightarrow> bool \<times> byte list \<times> socket" where
  "recv_all sockfd buffer required_bytes = recv_all_loop sockfd buffer 0 required_bytes"

text \<open>
  The bytes a socket still has to deliver, in the order of their arrival: what the
  specification calls the stream.
\<close>

fun event_bytes :: "recv_event \<Rightarrow> byte list" where
  "event_bytes (Data bs) = bs"
| "event_bytes Eintr = []"
| "event_bytes Error = []"

definition incoming :: "socket \<Rightarrow> byte list" where
  "incoming sock = concat (map event_bytes sock)"

text \<open>
  \<open>recive_full\<close> (\<^verbatim>\<open>esp_audio_reciver.cpp\<close>). The test for a return value of 0 and the
  addition to \<open>total_recived_bytes\<close> stand inside the block of \<open>current_recived_amount < 0\<close>,
  after its \<open>continue\<close> and \<open>return\<close>: no path reaches them. So a call that returns 0 or
  more bytes changes the buffer at the same offset and nothing else, and the loop goes
  round again. The loop need not end: it runs on fuel, and \<open>None\<close> says that the fuel ran
  out before the function returned.
\<close>

fun recive_full_loop ::
  "nat \<Rightarrow> socket \<Rightarrow> byte list \<Rightarrow> nat \<Rightarrow> nat \<Rightarrow> (bool \<times> byte list \<times> socket) option" where
  "recive_full_loop 0 sock buffer total_recived_bytes required_bytes = None"
| "recive_full_loop (Suc fuel) sock buffer total_recived_bytes required_bytes =
     (if total_recived_bytes < required_bytes then
        (case recv sock (required_bytes - total_recived_bytes) of
           (Interrupted, sock') \<Rightarrow>
             recive_full_loop fuel sock' buffer total_recived_bytes required_bytes
         | (Failed, sock') \<Rightarrow> Some (False, buffer, sock')
         | (Received bs, sock') \<Rightarrow>
             recive_full_loop fuel sock' (store buffer total_recived_bytes bs)
               total_recived_bytes required_bytes)
      else Some (True, buffer, sock))"

definition recive_full ::
  "nat \<Rightarrow> socket \<Rightarrow> byte list \<Rightarrow> nat \<Rightarrow> (bool \<times> byte list \<times> socket) option" where
  "recive_full fuel sock buffer required_bytes = recive_full_loop fuel sock buffer 0 required_bytes"

subsection \<open>Packet header\<close>

text \<open>
  The fields as \<open>tcp_audio_receiver_server_loop\<close> reads them from \<open>header_buffer\<close>, which
  holds \<open>HEADER_SIZE\<close> bytes whenever they are read. Each narrower operand is widened
  before the shift.
\<close>

definition magic :: "byte list \<Rightarrow> 32 word" where
  "magic header_buffer =
     ucast (header_buffer ! 0) OR push_bit 8 (ucast (header_buffer ! 1))
       OR push_bit 16 (ucast (header_buffer ! 2)) OR push_bit 24 (ucast (header_buffer ! 3))"

definition sequence_number :: "byte list \<Rightarrow> 32 word" where
  "sequence_number header_buffer =
     ucast (header_buffer ! 4) OR push_bit 8 (ucast (header_buffer ! 5))
       OR push_bit 16 (ucast (header_buffer ! 6)) OR push_bit 24 (ucast (header_buffer ! 7))"

text \<open>The two 64-bit fields are gathered by a loop over \<open>i = 0, \<dots>, 7\<close>.\<close>

definition first_sample_index :: "byte list \<Rightarrow> 64 word" where
  "first_sample_index header_buffer =
     fold (\<lambda>i acc. acc OR push_bit (8 * i) (ucast (header_buffer ! (8 + i)))) [0..<8] 0"

definition timestamp_microseconds :: "byte list \<Rightarrow> 64 word" where
  "timestamp_microseconds header_buffer =
     fold (\<lambda>i acc. acc OR push_bit (8 * i) (ucast (header_buffer ! (16 + i)))) [0..<8] 0"

definition frames_in_packet :: "byte list \<Rightarrow> 16 word" where
  "frames_in_packet header_buffer =
     ucast (header_buffer ! 24) OR push_bit 8 (ucast (header_buffer ! 25))"

definition channels_in_packet :: "byte list \<Rightarrow> 8 word" where
  "channels_in_packet header_buffer = header_buffer ! 26"

definition bytes_per_sample_in_packet :: "byte list \<Rightarrow> 8 word" where
  "bytes_per_sample_in_packet header_buffer = header_buffer ! 27"

definition sample_rate_in_packet :: "byte list \<Rightarrow> 32 word" where
  "sample_rate_in_packet header_buffer =
     ucast (header_buffer ! 28) OR push_bit 8 (ucast (header_buffer ! 29))
       OR push_bit 16 (ucast (header_buffer ! 30)) OR push_bit 24 (ucast (header_buffer ! 31))"

definition format_id_in_packet :: "byte list \<Rightarrow> 16 word" where
  "format_id_in_packet header_buffer =
     ucast (header_buffer ! 32) OR push_bit 8 (ucast (header_buffer ! 33))"

text \<open>\<open>payload_bytes\<close>: the product of the three counts, each cast to \<open>size_t\<close>.\<close>

definition payload_bytes :: "byte list \<Rightarrow> 64 word" where
  "payload_bytes header_buffer =
     ucast (frames_in_packet header_buffer) * ucast (channels_in_packet header_buffer)
       * ucast (bytes_per_sample_in_packet header_buffer)"

definition MAX_FRAMES_LIMIT :: "64 word" where
  "MAX_FRAMES_LIMIT = push_bit 16 1"

text \<open>
  The same fields in \<open>tcp_server_loop\<close> of \<^verbatim>\<open>esp_audio_reciver.cpp\<close>: \<open>packet_sequence\<close>
  takes \<open>header[5]\<close> a second time where \<open>header[6]\<close> belongs, and the loop for
  \<open>universal_timestamp\<close> reads from offset 8, as the one for \<open>first_sample_index\<close> does.
\<close>

definition packet_sequence :: "byte list \<Rightarrow> 32 word" where
  "packet_sequence header =
     ucast (header ! 4) OR push_bit 8 (ucast (header ! 5))
       OR (push_bit 16 (ucast (header ! 5)) OR push_bit 24 (ucast (header ! 7)))"

definition first_sample_index_reciver :: "byte list \<Rightarrow> 64 word" where
  "first_sample_index_reciver header =
     fold (\<lambda>i acc. acc OR push_bit (8 * i) (ucast (header ! (8 + i)))) [0..<8] 0"

definition universal_timestamp :: "byte list \<Rightarrow> 64 word" where
  "universal_timestamp header =
     fold (\<lambda>i acc. acc OR push_bit (8 * i) (ucast (header ! (8 + i)))) [0..<8] 0"

text \<open>
  The producer's side, \<open>sendPacketTCP\<close> of the streamer sketch: the header it builds for
  a sequence number, a first sample index, a time stamp and a frame count.
\<close>

definition sendPacketTCP_header :: "32 word \<Rightarrow> 64 word \<Rightarrow> 64 word \<Rightarrow> 16 word \<Rightarrow> byte list" where
  "sendPacketTCP_header seq first_index timestamp_us frames =
     [ucast (HEADER_MAGIC AND 0xFF), ucast (drop_bit 8 HEADER_MAGIC AND 0xFF),
      ucast (drop_bit 16 HEADER_MAGIC AND 0xFF), ucast (drop_bit 24 HEADER_MAGIC AND 0xFF),
      ucast (seq AND 0xFF), ucast (drop_bit 8 seq AND 0xFF),
      ucast (drop_bit 16 seq AND 0xFF), ucast (drop_bit 24 seq AND 0xFF)]
     @ map (\<lambda>i. ucast (drop_bit (8 * i) first_index AND 0xFF)) [0..<8]
     @ map (\<lambda>i. ucast (drop_bit (8 * i) timestamp_us AND 0xFF)) [0..<8]
     @ [ucast (frames AND 0xFF), ucast (drop_bit 8 frames AND 0xFF),
        1, 4,
        ucast ((48000 :: 32 word) AND 0xFF), ucast (drop_bit 8 (48000 :: 32 word) AND 0xFF),
        ucast (drop_bit 16 (48000 :: 32 word) AND 0xFF),
        ucast (drop_bit 24 (48000 :: 32 word) AND 0xFF),
        ucast ((1 :: 16 word) AND 0xFF), ucast (drop_bit 8 (1 :: 16 word) AND 0xFF)]"

text \<open>
  A little-endian field in the specification's words: the bytes of the field, the first
  the least significant.
\<close>

fun le_value :: "byte list \<Rightarrow> nat" where
  "le_value [] = 0"
| "le_value (b # bs) = unat b + 256 * le_value bs"

definition field :: "nat \<Rightarrow> nat \<Rightarrow> byte list \<Rightarrow> byte list" where
  "field offset width header = take width (drop offset header)"

subsection \<open>Frame conversion\<close>

text \<open>
  \<open>le_bytes_to_int32\<close> reads four bytes from a pointer into the payload. The vector holds
  \<open>payload_bytes\<close> bytes; a read that would pass its end is undefined behaviour in the
  source, and \<open>None\<close> here.
\<close>

definition le_bytes_to_int32 :: "byte list \<Rightarrow> nat \<Rightarrow> 32 word option" where
  "le_bytes_to_int32 payload_buffer base =
     (if base + 4 \<le> length payload_buffer then
        Some (ucast (payload_buffer ! base)
              OR push_bit 8 (ucast (payload_buffer ! (base + 1)))
              OR push_bit 16 (ucast (payload_buffer ! (base + 2)))
              OR push_bit 24 (ucast (payload_buffer ! (base + 3))))
      else None)"

text \<open>
  The loop over the frames of \<open>tcp_audio_receiver_server_loop\<close>, run over the frame indices
  \<open>0, \<dots>, frames_in_packet - 1\<close>: frame \<open>frame_index\<close> is read at
  \<open>frame_index * bytes_per_sample_in_packet * channels_in_packet\<close>, and its three bytes are
  pushed to \<open>output_bytes\<close>. The gain was loaded once, before the loop.
\<close>

fun convert_frames ::
  "real \<Rightarrow> byte list \<Rightarrow> nat \<Rightarrow> nat \<Rightarrow> nat list \<Rightarrow> byte list \<Rightarrow> byte list option" where
  "convert_frames gain_now payload_buffer bytes_per_sample channels [] output_bytes =
     Some output_bytes"
| "convert_frames gain_now payload_buffer bytes_per_sample channels (frame_index # rest)
     output_bytes =
     (case le_bytes_to_int32 payload_buffer (frame_index * bytes_per_sample * channels) of
        None \<Rightarrow> None
      | Some sample_int32 \<Rightarrow>
          convert_frames gain_now payload_buffer bytes_per_sample channels rest
            (output_bytes @ convert_sample sample_int32 gain_now))"


text \<open>The loop of \<open>tcp_server_loop\<close> in \<^verbatim>\<open>esp_audio_reciver.cpp\<close>, read at \<open>i * 4\<close> as well.\<close>

fun convert_frames_reciver ::
  "real \<Rightarrow> byte list \<Rightarrow> nat list \<Rightarrow> byte list \<Rightarrow> byte list option" where
  "convert_frames_reciver gain_factor payload_data_container [] out_bytes_container =
     Some out_bytes_container"
| "convert_frames_reciver gain_factor payload_data_container (i # rest) out_bytes_container =
     (case le_bytes_to_int32 payload_data_container (i * 4) of
        None \<Rightarrow> None
      | Some sound \<Rightarrow>
          convert_frames_reciver gain_factor payload_data_container rest
            (out_bytes_container @ convert_sample_reciver sound gain_factor))"

subsection \<open>The session loop\<close>

text \<open>
  The globals the receiver shares with the control plane. The gain is read; the model
  does not let the control plane change it during a connection. The sample counter is an
  \<open>int\<close>; its overflow is undefined in the source and out of the model's reach.
\<close>

record globals =
  makeup_gain :: real
  total_samples_written_count :: int
  highest_received_sample_index :: "64 word"
  last_received_sequence :: "32 word"

text \<open>The four \<open>break\<close>s of the packet loop, and a read outside the payload vector.\<close>

datatype loop_exit =
  HeaderReceiveFailed | BadHeaderMagic | SuspiciousFrames | PayloadReceiveFailed
  | ReadOutsidePayload

text \<open>
  One turn of the \<open>while\<close> loop over the packets in \<open>tcp_audio_receiver_server_loop\<close>, with
  the shutdown flag not raised. \<open>Some e\<close> is a \<open>break\<close>; \<open>None\<close> is the end of the body or a
  \<open>continue\<close>. The header array's earlier content never shows (a read that succeeds has
  written all of it), so each read starts from zeros, as the payload vector does.
\<close>

definition packet_iteration ::
  "socket \<Rightarrow> file_stream \<Rightarrow> globals \<Rightarrow> loop_exit option \<times> file_stream \<times> globals \<times> socket" where
  "packet_iteration client_fd output_wav_file g =
     (case recv_all client_fd (replicate HEADER_SIZE 0) HEADER_SIZE of
        (False, header_buffer, client_fd1) \<Rightarrow>
          (Some HeaderReceiveFailed, output_wav_file, g, client_fd1)
      | (True, header_buffer, client_fd1) \<Rightarrow>
          if magic header_buffer \<noteq> HEADER_MAGIC then
            (Some BadHeaderMagic, output_wav_file, g, client_fd1)
          else if payload_bytes header_buffer = 0 then
            (None, output_wav_file, g, client_fd1)
          else if frames_in_packet header_buffer = 0
                  \<or> MAX_FRAMES_LIMIT < ucast (frames_in_packet header_buffer) then
            (Some SuspiciousFrames, output_wav_file, g, client_fd1)
          else
            (case recv_all client_fd1 (replicate (unat (payload_bytes header_buffer)) 0)
                    (unat (payload_bytes header_buffer)) of
               (False, payload_buffer, client_fd2) \<Rightarrow>
                 (Some PayloadReceiveFailed, output_wav_file, g, client_fd2)
             | (True, payload_buffer, client_fd2) \<Rightarrow>
                 (case convert_frames (makeup_gain g) payload_buffer
                         (unat (bytes_per_sample_in_packet header_buffer))
                         (unat (channels_in_packet header_buffer))
                         [0..<unat (frames_in_packet header_buffer)] [] of
                    None \<Rightarrow> (Some ReadOutsidePayload, output_wav_file, g, client_fd2)
                  | Some output_bytes \<Rightarrow>
                      (None, fwrite output_bytes output_wav_file,
                       g\<lparr>total_samples_written_count :=
                            total_samples_written_count g + uint (frames_in_packet header_buffer),
                          highest_received_sample_index :=
                            first_sample_index header_buffer
                              + ucast (frames_in_packet header_buffer) - 1,
                          last_received_sequence := sequence_number header_buffer\<rparr>,
                       client_fd2))))"

function packet_loop ::
  "socket \<Rightarrow> file_stream \<Rightarrow> globals \<Rightarrow> loop_exit \<times> file_stream \<times> globals \<times> socket" where
  "packet_loop client_fd output_wav_file g =
     (case packet_iteration client_fd output_wav_file g of
        (Some e, output_wav_file', g', client_fd') \<Rightarrow> (e, output_wav_file', g', client_fd')
      | (None, output_wav_file', g', client_fd') \<Rightarrow> packet_loop client_fd' output_wav_file' g')"
  by pat_completeness auto

lemma recv_all_loop_size:
  "recv_all_loop sockfd buffer total_received required_bytes = (ok, buffer', sockfd') \<Longrightarrow>
   sock_size sockfd' \<le> sock_size sockfd
   \<and> (ok \<and> total_received < required_bytes \<longrightarrow> sock_size sockfd' < sock_size sockfd)"
proof (induction sockfd buffer total_received required_bytes rule: recv_all_loop.induct)
  case (1 sockfd buffer total_received required_bytes)
  show ?case
  proof (cases "total_received < required_bytes")
    case False
    with "1.prems" show ?thesis
      by (simp add: recv_all_loop.simps [of sockfd buffer total_received required_bytes])
  next
    case True
    obtain r s where rs: "recv sockfd (required_bytes - total_received) = (r, s)"
      by (cases "recv sockfd (required_bytes - total_received)")
    have le: "sock_size s \<le> sock_size sockfd"
      using rs by (rule recv_size_le)
    show ?thesis
    proof (cases r)
      case Interrupted
      have less: "sock_size s < sock_size sockfd"
        using rs True Interrupted by (intro recv_size [OF rs]) simp_all
      have "recv_all_loop s buffer total_received required_bytes = (ok, buffer', sockfd')"
        using "1.prems" True rs Interrupted
        by (simp add: recv_all_loop.simps [of sockfd buffer total_received required_bytes])
      from "1.IH"(2) [OF True rs [symmetric] Interrupted this] less show ?thesis
        by auto
    next
      case Failed
      with "1.prems" True rs le show ?thesis
        by (simp add: recv_all_loop.simps [of sockfd buffer total_received required_bytes])
    next
      case (Received bs)
      show ?thesis
      proof (cases "length bs = 0")
        case True
        with "1.prems" \<open>total_received < required_bytes\<close> rs Received le show ?thesis
          by (simp add: recv_all_loop.simps [of sockfd buffer total_received required_bytes])
      next
        case False
        have less: "sock_size s < sock_size sockfd"
          using rs \<open>total_received < required_bytes\<close> Received False
          by (intro recv_size [OF rs]) simp_all
        have "recv_all_loop s (store buffer total_received bs) (total_received + length bs)
                required_bytes = (ok, buffer', sockfd')"
          using "1.prems" \<open>total_received < required_bytes\<close> rs Received False
          by (simp add: recv_all_loop.simps [of sockfd buffer total_received required_bytes])
        from "1.IH"(1) [OF \<open>total_received < required_bytes\<close> rs [symmetric] Received
            False this] less
        show ?thesis
          by auto
      qed
    qed
  qed
qed

lemma recv_all_size:
  "recv_all sockfd buffer required_bytes = (ok, buffer', sockfd') \<Longrightarrow>
   sock_size sockfd' \<le> sock_size sockfd
   \<and> (ok \<and> 0 < required_bytes \<longrightarrow> sock_size sockfd' < sock_size sockfd)"
  unfolding recv_all_def by (rule recv_all_loop_size)

lemma packet_iteration_size:
  assumes "packet_iteration client_fd output_wav_file g = (None, output_wav_file', g', client_fd')"
  shows "sock_size client_fd' < sock_size client_fd"
proof -
  obtain ok hb s1 where h: "recv_all client_fd (replicate HEADER_SIZE 0) HEADER_SIZE = (ok, hb, s1)"
    by (cases "recv_all client_fd (replicate HEADER_SIZE 0) HEADER_SIZE")
  obtain ok2 pb s2 where p:
    "recv_all s1 (replicate (unat (payload_bytes hb)) 0) (unat (payload_bytes hb)) = (ok2, pb, s2)"
    by (cases "recv_all s1 (replicate (unat (payload_bytes hb)) 0) (unat (payload_bytes hb))")
  have ok: ok
    using assms h by (cases ok) (simp_all add: packet_iteration_def)
  have s1: "sock_size s1 < sock_size client_fd"
    using recv_all_size [OF h] ok by (simp add: HEADER_SIZE_def)
  have s2: "sock_size s2 \<le> sock_size s1"
    using recv_all_size [OF p] by simp
  have "client_fd' = s1 \<or> client_fd' = s2"
    using assms h p ok
    by (cases ok2) (auto simp: packet_iteration_def split: if_splits option.splits)
  with s1 s2 show ?thesis
    by auto
qed

termination packet_loop
  apply (relation "measure (\<lambda>(client_fd, output_wav_file, g). sock_size client_fd)")
   apply simp
  apply (auto intro: packet_iteration_size [OF sym])
  done

declare packet_loop.simps [simp del]

text \<open>
  One connection of \<open>tcp_audio_receiver_server_loop\<close>: the output file is created anew and
  receives the placeholder header, the packets are served, and the file is closed with
  what was written. (\<open>fopen\<close> is taken to succeed.)
\<close>

definition serve_connection :: "socket \<Rightarrow> globals \<Rightarrow> loop_exit \<times> byte list \<times> globals" where
  "serve_connection client_fd g =
     (let output_wav_file =
            fseek_end (write_wav_header_placeholder fopen_wb EXPECTED_SAMPLE_RATE
                         (ucast EXPECTED_CHANNEL_COUNT))
      in case packet_loop client_fd output_wav_file g of
           (e, output_wav_file', g', client_fd') \<Rightarrow> (e, bytes output_wav_file', g'))"

text \<open>
  The \<open>accept\<close> loop, over the connections that arrive until the listener stops. It yields
  how each connection ended, the output file as it is left on disk (\<open>None\<close> when no
  connection ever created it) and the globals.
\<close>

fun tcp_audio_receiver_server_loop ::
  "socket list \<Rightarrow> byte list option \<Rightarrow> globals
   \<Rightarrow> loop_exit list \<times> byte list option \<times> globals" where
  "tcp_audio_receiver_server_loop [] wav g = ([], wav, g)"
| "tcp_audio_receiver_server_loop (client_fd # clients) wav g =
     (case serve_connection client_fd g of
        (e, content, g') \<Rightarrow>
          (case tcp_audio_receiver_server_loop clients (Some content) g' of
             (es, wav', g'') \<Rightarrow> (e # es, wav', g'')))"

text \<open>
  \<open>tcp_server_loop\<close> of \<^verbatim>\<open>esp_audio_reciver.cpp\<close>, from the payload read to the write block.
  The return value of \<open>recive_full\<close> only chooses whether a line is logged: there is no
  \<open>break\<close>, and the frames are converted from whatever the payload vector holds. The
  result is \<open>out_bytes_container\<close> as the write block finds it; \<open>None\<close> is a read outside the
  payload vector. The write block takes \<open>global_file_mutex\<close>, which the thread still holds
  since it opened the file (the scope of that \<open>lock_guard\<close> closes after the packet loop);
  locking it again is undefined, and the model ends in front of it.
\<close>

definition after_payload_read_reciver ::
  "bool \<Rightarrow> byte list \<Rightarrow> byte list \<Rightarrow> real \<Rightarrow> byte list option" where
  "after_payload_read_reciver payload_recived payload_data_container header gain =
     convert_frames_reciver gain payload_data_container [0..<unat (frames_in_packet header)] []"


section \<open>Properties of the sample converter\<close>

lemma mask24_word: "(0xFFFFFF :: 32 word) = mask 24"
  by (simp add: mask_eq_exp_minus_1)

lemma mask28_word: "(0xFFFFFFF :: 32 word) = mask 28"
  by (simp add: mask_eq_exp_minus_1)

lemma mask8_word: "(0xFF :: 32 word) = mask 8"
  by (simp add: mask_eq_exp_minus_1)

lemma uint_signed_drop_bit32:
  "uint (signed_drop_bit n (w :: 32 word)) = take_bit 32 (drop_bit n (sint w))"
  by (simp add: uint_sint sint_signed_drop_bit_eq)

lemma int32_left24_to_3bytes_le_spec:
  "map uint (int32_left24_to_3bytes_le s) = spec_pack_le3 (spec_sample24 (sint s))"
  unfolding int32_left24_to_3bytes_le_def spec_pack_le3_def spec_sample24_def Let_def
    mask24_word mask8_word
  apply (simp add: unsigned_ucast_eq unsigned_drop_bit_eq unsigned_take_bit_eq
      uint_signed_drop_bit32 flip: take_bit_eq_mask)
  apply (simp add: take_bit_eq_mod drop_bit_eq_div mod_mod_cancel)
  done

lemma int32_to_24_bytes_little_endian_spec:
  "map uint (int32_to_24_bytes_little_endian s) = spec_pack_le3 (spec_sample24 (sint s))"
proof -
  have "map uint (int32_to_24_bytes_little_endian s) = map uint (int32_left24_to_3bytes_le s)"
    unfolding int32_to_24_bytes_little_endian_def int32_left24_to_3bytes_le_def Let_def
      mask24_word mask28_word mask8_word
    by (simp add: unsigned_ucast_eq unsigned_drop_bit_eq unsigned_take_bit_eq
        uint_signed_drop_bit32 drop_bit_take_bit flip: take_bit_eq_mask)
  then show ?thesis
    by (simp only: int32_left24_to_3bytes_le_spec)
qed

lemma round_half_even_ge: "\<lfloor>x\<rfloor> \<le> round_half_even x"
  by (simp add: round_half_even_def Let_def)

lemma round_half_even_le: "round_half_even x \<le> \<lceil>x\<rceil>"
proof -
  have "\<lfloor>x\<rfloor> + 1 \<le> \<lceil>x\<rceil>" if "real_of_int \<lfloor>x\<rfloor> < x"
    using that by linarith
  moreover have "\<lfloor>x\<rfloor> \<le> \<lceil>x\<rceil>"
    by linarith
  ultimately show ?thesis
    by (auto simp: round_half_even_def Let_def)
qed

lemma round_half_even_of_int: "round_half_even (real_of_int n) = n"
  by (simp add: round_half_even_def)

lemma int_le_round_half_even:
  assumes "real_of_int m \<le> x"
  shows "m \<le> round_half_even x"
proof -
  have "m \<le> \<lfloor>x\<rfloor>"
    using assms by (simp only: le_floor_iff)
  with round_half_even_ge [of x] show ?thesis
    by (rule order_trans [rotated])
qed

lemma round_half_even_le_int:
  assumes "x \<le> real_of_int m"
  shows "round_half_even x \<le> m"
proof -
  have "\<lceil>x\<rceil> \<le> m"
    using assms by (simp only: ceiling_le_iff)
  with round_half_even_le [of x] show ?thesis
    by (rule order_trans)
qed

lemma binade_le:
  assumes "x \<noteq> 0" and "0 \<le> double_ulp_exponent x"
  shows "2 ^ 52 * 2 ^ nat (double_ulp_exponent x) \<le> \<bar>x\<bar>"
proof -
  let ?e = "\<lfloor>log 2 \<bar>x\<bar>\<rfloor>"
  have e: "?e = double_ulp_exponent x + 52"
    using assms(2) by (simp add: double_ulp_exponent_def max_def split: if_splits)
  have "2 powr real_of_int ?e \<le> \<bar>x\<bar>"
    using floor_log_eq_powr_iff [of "\<bar>x\<bar>" 2 ?e] assms(1) by simp
  moreover have "0 \<le> ?e"
    using assms(2) e by simp
  then have "2 powr real_of_int ?e = (2 :: real) ^ nat ?e"
    using powr_int [of "2 :: real" ?e] by (simp only: if_True)
  moreover have "nat ?e = 52 + nat (double_ulp_exponent x)"
    using assms(2) e by simp
  ultimately show ?thesis
    by (simp add: power_add)
qed

lemma round_to_double_ge:
  assumes "real_of_int m \<le> x" and "\<bar>m\<bar> < 2 ^ 52"
  shows "real_of_int m \<le> round_to_double x"
proof (cases "x = 0")
  case True
  with assms(1) show ?thesis
    by (simp add: round_to_double_def)
next
  case False
  let ?k = "double_ulp_exponent x"
  show ?thesis
  proof (cases "0 \<le> ?k")
    case neg: False
    let ?j = "nat (- ?k)"
    have "real_of_int (m * 2 ^ ?j) \<le> x * 2 ^ ?j"
      using assms(1) by simp
    then have "m * 2 ^ ?j \<le> round_half_even (x * 2 ^ ?j)"
      by (rule int_le_round_half_even)
    then have "real_of_int (m * 2 ^ ?j) \<le> real_of_int (round_half_even (x * 2 ^ ?j))"
      by (simp only: of_int_le_iff)
    then have "real_of_int m \<le> real_of_int (round_half_even (x * 2 ^ ?j)) / 2 ^ ?j"
      by (simp add: pos_le_divide_eq)
    with False neg show ?thesis
      by (simp add: round_to_double_def Let_def)
  next
    case pos: True
    let ?u = "(2 :: real) ^ nat ?k"
    have big: "2 ^ 52 * ?u \<le> \<bar>x\<bar>"
      using False pos by (rule binade_le)
    have u1: "1 \<le> ?u"
      by simp
    have m: "real_of_int m < 2 ^ 52" "- (2 ^ 52) < real_of_int m"
      using assms(2) by (simp_all add: abs_less_iff)
    have xpos: "0 < x"
    proof (rule ccontr)
      assume "\<not> 0 < x"
      then have "x \<le> - (2 ^ 52 * ?u)"
        using big by linarith
      moreover have "(2 :: real) ^ 52 \<le> 2 ^ 52 * ?u"
        using u1 by simp
      ultimately show False
        using assms(1) m(2) by linarith
    qed
    have "real_of_int (2 ^ 52) \<le> x / ?u"
      using big xpos by (simp add: pos_le_divide_eq)
    then have "2 ^ 52 \<le> round_half_even (x / ?u)"
      by (rule int_le_round_half_even)
    then have "real_of_int (2 ^ 52) \<le> real_of_int (round_half_even (x / ?u))"
      by (simp only: of_int_le_iff)
    then have "2 ^ 52 * 1 \<le> real_of_int (round_half_even (x / ?u)) * ?u"
      using u1 by (intro mult_mono) simp_all
    with m(1) have "real_of_int m \<le> real_of_int (round_half_even (x / ?u)) * ?u"
      by simp
    with False pos show ?thesis
      by (simp add: round_to_double_def Let_def)
  qed
qed

lemma round_to_double_le:
  assumes "x \<le> real_of_int m" and "\<bar>m\<bar> < 2 ^ 52"
  shows "round_to_double x \<le> real_of_int m"
proof (cases "x = 0")
  case True
  with assms(1) show ?thesis
    by (simp add: round_to_double_def)
next
  case False
  let ?k = "double_ulp_exponent x"
  show ?thesis
  proof (cases "0 \<le> ?k")
    case neg: False
    let ?j = "nat (- ?k)"
    have "x * 2 ^ ?j \<le> real_of_int (m * 2 ^ ?j)"
      using assms(1) by simp
    then have "round_half_even (x * 2 ^ ?j) \<le> m * 2 ^ ?j"
      by (rule round_half_even_le_int)
    then have "real_of_int (round_half_even (x * 2 ^ ?j)) \<le> real_of_int (m * 2 ^ ?j)"
      by (simp only: of_int_le_iff)
    then have "real_of_int (round_half_even (x * 2 ^ ?j)) / 2 ^ ?j \<le> real_of_int m"
      by (simp add: pos_divide_le_eq)
    with False neg show ?thesis
      by (simp add: round_to_double_def Let_def)
  next
    case pos: True
    let ?u = "(2 :: real) ^ nat ?k"
    have big: "2 ^ 52 * ?u \<le> \<bar>x\<bar>"
      using False pos by (rule binade_le)
    have u1: "1 \<le> ?u"
      by simp
    have m: "real_of_int m < 2 ^ 52" "- (2 ^ 52) < real_of_int m"
      using assms(2) by (simp_all add: abs_less_iff)
    have xneg: "x < 0"
    proof (rule ccontr)
      assume "\<not> x < 0"
      then have "2 ^ 52 * ?u \<le> x"
        using big by linarith
      moreover have "(2 :: real) ^ 52 \<le> 2 ^ 52 * ?u"
        using u1 by simp
      ultimately show False
        using assms(1) m(1) by linarith
    qed
    have "x / ?u \<le> real_of_int (- (2 ^ 52))"
      using big xneg by (simp add: pos_divide_le_eq)
    then have "round_half_even (x / ?u) \<le> - (2 ^ 52)"
      by (rule round_half_even_le_int)
    then have "real_of_int (round_half_even (x / ?u)) \<le> real_of_int (- (2 ^ 52))"
      by (simp only: of_int_le_iff)
    then have "real_of_int (round_half_even (x / ?u)) * ?u \<le> - (2 ^ 52) * 1"
      using u1 mult_mono [of "2 ^ 52" "- real_of_int (round_half_even (x / ?u))" 1 ?u] by simp
    with m(2) have "real_of_int (round_half_even (x / ?u)) * ?u \<le> real_of_int m"
      by simp
    with False pos show ?thesis
      by (simp add: round_to_double_def Let_def)
  qed
qed

lemma round_to_double_of_int:
  "\<bar>n\<bar> < 2 ^ 52 \<Longrightarrow> round_to_double (real_of_int n) = real_of_int n"
  using round_to_double_ge [of n "real_of_int n"] round_to_double_le [of "real_of_int n" n]
  by simp

lemma llround_of_int: "llround (real_of_int n) = n"
  by (simp add: llround_def)

lemma sint_bounds32: "INT32_MIN \<le> sint (s :: 32 word) \<and> sint s \<le> INT32_MAX"
  using sint_ge [of s] sint_lt [of s] by (simp add: INT32_MIN_def INT32_MAX_def)

lemma clamp_scaled_in_range:
  "INT32_MIN \<le> n \<Longrightarrow> n \<le> INT32_MAX \<Longrightarrow> clamp_scaled (real_of_int n) = real_of_int n"
  by (simp add: clamp_scaled_def Let_def)

lemma clamp_scaled_reciver_eq: "clamp_scaled_reciver x = clamp_scaled x"
  by (simp add: clamp_scaled_reciver_def clamp_scaled_def Let_def INT32_MAX_def INT32_MIN_def)

lemma three_bytes_reciver_eq: "three_bytes_reciver x = three_bytes x"
  by (simp add: three_bytes_reciver_def three_bytes_def scaled_i32_def
      int32_left24_to_3bytes_le_def clamp_scaled_reciver_eq Let_def)

lemma three_bytes_fixed_eq: "three_bytes_fixed x = three_bytes x"
  by (simp add: three_bytes_fixed_def three_bytes_def scaled_i32_def
      int32_left24_to_3bytes_le_def Let_def)

lemma sint_small: "\<bar>sint (s :: 32 word)\<bar> < 2 ^ 52"
  using sint_ge [of s] sint_lt [of s] by simp

lemma scaled_gain_one: "scaled s 1 = real_of_int (sint s)"
  unfolding scaled_def mult_1_right by (rule round_to_double_of_int) (rule sint_small)

lemma scaled_i32_gain_one: "scaled_i32 (scaled s 1) = s"
proof -
  have "clamp_scaled (real_of_int (sint s)) = real_of_int (sint s)"
    using sint_bounds32 [of s] by (intro clamp_scaled_in_range) simp_all
  then have "llround (clamp_scaled (real_of_int (sint s))) = sint s"
    by (simp only: llround_of_int)
  then have "scaled_i32 (scaled s 1) = word_of_int (sint s)"
    by (simp only: scaled_i32_def scaled_gain_one)
  then show ?thesis
    by simp
qed

lemma int32_left24_to_3bytes_le_max: "int32_left24_to_3bytes_le 0x7FFFFFFF = [0xFF, 0xFF, 0x7F]"
  by (simp add: int32_left24_to_3bytes_le_def)

text \<open>
  Claim C1. For every 32-bit signed sample \<open>S\<close>, the conversion at gain 1.0 does not clamp
  and gives the three bytes of \<open>(S >> 8) & 0xFFFFFF\<close>, least significant first, the shift
  being arithmetic. It holds for the loop body of each of the three receivers and for the
  helper \<open>int32_to_24_bytes_little_endian\<close>, whose wider mask does not reach the bytes.
\<close>

theorem gain_one_round_trip:
  "clamp_scaled (scaled S 1) = scaled S 1
   \<and> map uint (convert_sample S 1) = spec_pack_le3 (spec_sample24 (sint S))
   \<and> map uint (convert_sample_reciver S 1) = spec_pack_le3 (spec_sample24 (sint S))
   \<and> map uint (convert_sample_fixed S 1) = spec_pack_le3 (spec_sample24 (sint S))
   \<and> map uint (int32_to_24_bytes_little_endian S) = spec_pack_le3 (spec_sample24 (sint S))"
proof -
  have noclamp: "clamp_scaled (scaled S 1) = scaled S 1"
    using sint_bounds32 [of S] unfolding scaled_gain_one
    by (intro clamp_scaled_in_range) simp_all
  have v2: "convert_sample S 1 = int32_left24_to_3bytes_le S"
    by (simp only: convert_sample_def three_bytes_def scaled_i32_gain_one)
  have v1: "convert_sample_reciver S 1 = convert_sample S 1"
    by (simp only: convert_sample_reciver_def convert_sample_def three_bytes_reciver_eq)
  have v3: "convert_sample_fixed S 1 = convert_sample S 1"
    by (simp only: convert_sample_fixed_def convert_sample_def three_bytes_fixed_eq)
  show ?thesis
    by (simp only: noclamp v1 v2 v3 int32_left24_to_3bytes_le_spec
        int32_to_24_bytes_little_endian_spec simp_thms)
qed

lemma int32_left24_to_3bytes_le_min: "int32_left24_to_3bytes_le 0x80000000 = [0, 0, 0x80]"
  by (simp add: int32_left24_to_3bytes_le_def)

lemma INT32_small: "\<bar>INT32_MAX\<bar> < 2 ^ 52" "\<bar>INT32_MIN\<bar> < 2 ^ 52"
  by (simp_all add: INT32_MAX_def INT32_MIN_def)

text \<open>
  Rounding the product to a \<open>double\<close> keeps it on its side of the two bounds, which are
  \<open>double\<close>s themselves.
\<close>

lemma scaled_above:
  assumes "real_of_int INT32_MAX < real_of_int (sint s) * g"
  shows "real_of_int INT32_MAX \<le> scaled s g"
  unfolding scaled_def using less_imp_le [OF assms] INT32_small(1) by (rule round_to_double_ge)

lemma scaled_below:
  assumes "real_of_int (sint s) * g < real_of_int INT32_MIN"
  shows "scaled s g \<le> real_of_int INT32_MIN"
  unfolding scaled_def using less_imp_le [OF assms] INT32_small(2) by (rule round_to_double_le)

text \<open>
  And a rounded product beyond a bound comes from an exact product beyond it: what holds
  for every exact product beyond a bound holds for every machine product beyond it.
\<close>

lemma scaled_exceeds:
  assumes "real_of_int INT32_MAX < scaled s g"
  shows "real_of_int INT32_MAX < real_of_int (sint s) * g"
proof (rule ccontr)
  assume "\<not> real_of_int INT32_MAX < real_of_int (sint s) * g"
  then have "real_of_int (sint s) * g \<le> real_of_int INT32_MAX"
    by (simp only: not_less)
  then have "scaled s g \<le> real_of_int INT32_MAX"
    unfolding scaled_def using INT32_small(1) by (rule round_to_double_le)
  with assms show False
    by linarith
qed

lemma scaled_falls_below:
  assumes "scaled s g < real_of_int INT32_MIN"
  shows "real_of_int (sint s) * g < real_of_int INT32_MIN"
proof (rule ccontr)
  assume "\<not> real_of_int (sint s) * g < real_of_int INT32_MIN"
  then have "real_of_int INT32_MIN \<le> real_of_int (sint s) * g"
    by (simp only: not_less)
  then have "real_of_int INT32_MIN \<le> scaled s g"
    unfolding scaled_def using INT32_small(2) by (rule round_to_double_ge)
  with assms show False
    by linarith
qed

lemma clamp_scaled_at_max:
  "real_of_int INT32_MAX \<le> x \<Longrightarrow> clamp_scaled x = real_of_int INT32_MAX"
  by (simp add: clamp_scaled_def Let_def INT32_MAX_def INT32_MIN_def)

lemma clamp_scaled_at_min:
  "x \<le> real_of_int INT32_MIN \<Longrightarrow> clamp_scaled x = real_of_int INT32_MIN"
  by (simp add: clamp_scaled_def Let_def INT32_MAX_def INT32_MIN_def)

lemma scaled_i32_at_max: "real_of_int INT32_MAX \<le> x \<Longrightarrow> scaled_i32 x = 0x7FFFFFFF"
  by (simp add: scaled_i32_def clamp_scaled_at_max llround_of_int) (simp add: INT32_MAX_def)

lemma scaled_i32_at_min: "x \<le> real_of_int INT32_MIN \<Longrightarrow> scaled_i32 x = 0x80000000"
  by (simp add: scaled_i32_def clamp_scaled_at_min llround_of_int) (simp add: INT32_MIN_def)

lemma three_bytes_at_max:
  "real_of_int INT32_MAX \<le> x \<Longrightarrow> three_bytes x = [0xFF, 0xFF, 0x7F]"
  by (simp only: three_bytes_def scaled_i32_at_max int32_left24_to_3bytes_le_max)

lemma three_bytes_at_min:
  "x \<le> real_of_int INT32_MIN \<Longrightarrow> three_bytes x = [0, 0, 0x80]"
  by (simp only: three_bytes_def scaled_i32_at_min int32_left24_to_3bytes_le_min)

lemma spec_bytes_max: "spec_pack_le3 (spec_sample24 INT32_MAX) = [0xFF, 0xFF, 0x7F]"
  by (simp add: spec_pack_le3_def spec_sample24_def INT32_MAX_def)

lemma spec_bytes_min: "spec_pack_le3 (spec_sample24 INT32_MIN) = [0, 0, 0x80]"
  by (simp add: spec_pack_le3_def spec_sample24_def INT32_MIN_def)

text \<open>
  Claim C2. For every sample and gain whose product is above \<open>INT32_MAX\<close>, the value that
  is rounded and shifted is \<open>INT32_MAX\<close> and the bytes written are those of
  \<open>INT32_MAX >> 8\<close>; for every sample and gain whose product is below \<open>INT32_MIN\<close> they are
  \<open>INT32_MIN\<close> and the bytes of \<open>INT32_MIN >> 8\<close>. The sample \<open>0x7FFFFFFF\<close> at gain 2.0 gives
  \<open>FF FF 7F\<close>. The loop body of \<^verbatim>\<open>esp_audio_reciver.cpp\<close>, with \<open>else if\<close> in the clamp, does
  the same.
\<close>

theorem clamp_saturates:
  "(real_of_int INT32_MAX < real_of_int (sint s) * g \<longrightarrow>
      clamp_scaled (scaled s g) = real_of_int INT32_MAX
      \<and> map uint (convert_sample s g) = spec_pack_le3 (spec_sample24 INT32_MAX)
      \<and> map uint (convert_sample_reciver s g) = spec_pack_le3 (spec_sample24 INT32_MAX))
   \<and> (real_of_int (sint s) * g < real_of_int INT32_MIN \<longrightarrow>
      clamp_scaled (scaled s g) = real_of_int INT32_MIN
      \<and> map uint (convert_sample s g) = spec_pack_le3 (spec_sample24 INT32_MIN)
      \<and> map uint (convert_sample_reciver s g) = spec_pack_le3 (spec_sample24 INT32_MIN))
   \<and> convert_sample 0x7FFFFFFF 2 = [0xFF, 0xFF, 0x7F]
   \<and> convert_sample_reciver 0x7FFFFFFF 2 = [0xFF, 0xFF, 0x7F]"
proof -
  have v1: "convert_sample_reciver s g = convert_sample s g" for s g
    by (simp only: convert_sample_reciver_def convert_sample_def three_bytes_reciver_eq)
  have hi: "clamp_scaled (scaled s g) = real_of_int INT32_MAX
            \<and> map uint (convert_sample s g) = spec_pack_le3 (spec_sample24 INT32_MAX)"
    if "real_of_int INT32_MAX < real_of_int (sint s) * g" for s g
  proof -
    have above: "real_of_int INT32_MAX \<le> scaled s g"
      using that by (rule scaled_above)
    have "map uint (three_bytes (scaled s g)) = [0xFF, 0xFF, 0x7F]"
      by (simp only: three_bytes_at_max [OF above]) simp
    then show ?thesis
      by (simp only: clamp_scaled_at_max [OF above] convert_sample_def spec_bytes_max simp_thms)
  qed
  have lo: "clamp_scaled (scaled s g) = real_of_int INT32_MIN
            \<and> map uint (convert_sample s g) = spec_pack_le3 (spec_sample24 INT32_MIN)"
    if "real_of_int (sint s) * g < real_of_int INT32_MIN" for s g
  proof -
    have below: "scaled s g \<le> real_of_int INT32_MIN"
      using that by (rule scaled_below)
    have "map uint (three_bytes (scaled s g)) = [0, 0, 0x80]"
      by (simp only: three_bytes_at_min [OF below]) simp
    then show ?thesis
      by (simp only: clamp_scaled_at_min [OF below] convert_sample_def spec_bytes_min simp_thms)
  qed
  have "real_of_int INT32_MAX \<le> scaled 0x7FFFFFFF 2"
    by (rule scaled_above) (simp add: INT32_MAX_def)
  then have ex: "convert_sample 0x7FFFFFFF 2 = [0xFF, 0xFF, 0x7F]"
    by (simp only: convert_sample_def three_bytes_at_max)
  show ?thesis
    using hi [of s g] lo [of s g] ex by (simp only: v1 simp_thms) blast
qed

theorem clamp_saturates_witness:
  "real_of_int INT32_MAX < real_of_int (sint (0x40000000 :: 32 word)) * 4
   \<and> map uint (convert_sample 0x40000000 4) = [255, 255, 127]
   \<and> real_of_int (sint (0xC0000000 :: 32 word)) * 4 < real_of_int INT32_MIN
   \<and> map uint (convert_sample 0xC0000000 4) = [0, 0, 128]"
  using clamp_saturates [of "0x40000000" 4] clamp_saturates [of "0xC0000000" 4]
  by (simp add: INT32_MAX_def INT32_MIN_def spec_pack_le3_def spec_sample24_def)



lemma double_ulp_exponent_binade:
  assumes "2 ^ n \<le> \<bar>x\<bar>" and "\<bar>x\<bar> < 2 ^ Suc n"
  shows "double_ulp_exponent x = int n - 52"
proof -
  have pos: "0 < \<bar>x\<bar>"
    using assms(1) by (rule less_le_trans [rotated]) simp
  have "2 powr real_of_int (int n) \<le> \<bar>x\<bar> \<and> \<bar>x\<bar> < 2 powr real_of_int (int n + 1)"
    using assms by (simp add: powr_realpow powr_add)
  then have "\<lfloor>log 2 \<bar>x\<bar>\<rfloor> = int n"
    using floor_log_eq_powr_iff [of "\<bar>x\<bar>" 2 "int n"] pos by simp
  then show ?thesis
    by (simp add: double_ulp_exponent_def)
qed

text \<open>
  The rounding of the product shows in the bytes. The \<open>double\<close> nearest to 0.3 is
  \<open>5404319552844595 / 2 ^ 54\<close>; its exact product with 1705 lies just below 511.5, the
  machine's product is 511.5, and \<open>llround\<close> takes that to 512.
\<close>

lemma scaled_is_rounded:
  "real_of_int (sint (1705 :: 32 word)) * (5404319552844595 / 2 ^ 54) < 1023 / 2
   \<and> scaled 1705 (5404319552844595 / 2 ^ 54) = 1023 / 2
   \<and> convert_sample 1705 (5404319552844595 / 2 ^ 54) = [2, 0, 0]"
proof -
  let ?p = "real_of_int (sint (1705 :: 32 word)) * (5404319552844595 / 2 ^ 54)"
  have p: "?p = 9214364837600034475 / 2 ^ 54"
    by simp
  have k: "double_ulp_exponent (9214364837600034475 / 18014398509481984) = - 44"
    using double_ulp_exponent_binade [of 8 "9214364837600034475 / 18014398509481984"] by simp
  have s: "scaled 1705 (5404319552844595 / 2 ^ 54) = 1023 / 2"
    unfolding scaled_def p
    by (simp add: round_to_double_def k Let_def) (simp add: round_half_even_def Let_def)
  have c: "convert_sample 1705 (5404319552844595 / 2 ^ 54) = [2, 0, 0]"
    unfolding convert_sample_def s
    by (simp add: three_bytes_def scaled_i32_def clamp_scaled_def llround_def
        INT32_MAX_def INT32_MIN_def int32_left24_to_3bytes_le_def Let_def)
  show ?thesis
    using s c by (simp only: simp_thms) simp
qed

section \<open>Properties of the container writer\<close>

lemma placeholder_file_bytes:
  "placeholder_file =
   [82, 73, 70, 70, 0, 0, 0, 0, 87, 65, 86, 69, 102, 109, 116, 32, 16, 0, 0, 0, 1, 0, 1, 0,
    128, 187, 0, 0, 128, 50, 2, 0, 3, 0, 24, 0, 100, 97, 116, 97, 0, 0, 0, 0]"
  by (simp add: placeholder_file_def write_wav_header_placeholder_def fopen_wb_def fwrite_def
      write_u32_le_def write_u16_le_def OUT_BYTES_PER_SAMPLE_def EXPECTED_SAMPLE_RATE_def
      EXPECTED_CHANNEL_COUNT_def Let_def)

lemma length_fwrite:
  "length (bytes (fwrite bs f)) = max (length (bytes f)) (position f + length bs)"
  by (auto simp: fwrite_def)

lemma nth_fwrite:
  "i < length (bytes f) \<Longrightarrow> bytes (fwrite bs f) ! i =
     (if position f \<le> i \<and> i < position f + length bs then bs ! (i - position f)
      else bytes f ! i)"
  by (auto simp: fwrite_def nth_append)

lemma nth_fwrite_in:
  "position f \<le> i \<Longrightarrow> i < position f + length bs \<Longrightarrow>
   bytes (fwrite bs f) ! i = bs ! (i - position f)"
  by (auto simp: fwrite_def nth_append min_def)

lemma nat_bytes_sum:
  fixes n :: nat
  shows "n mod 256 + 256 * (n div 256 mod 256) + 65536 * (n div 65536 mod 256)
           + 16777216 * (n div 16777216) = n"
proof -
  have a: "n = n mod 256 + 256 * (n div 256)"
    by simp
  have "n div 65536 = n div 256 div 256"
    by (simp add: div_mult2_eq)
  then have b: "n div 256 = n div 256 mod 256 + 256 * (n div 65536)"
    by simp
  have "n div 16777216 = n div 65536 div 256"
    by (simp add: div_mult2_eq)
  then have c: "n div 65536 = n div 65536 mod 256 + 256 * (n div 16777216)"
    by simp
  show ?thesis
    using a b c by linarith
qed

lemma unat_u32_bytes:
  "unat (ucast ((v::32 word) AND 0xFF) :: byte)
     + 256 * unat (ucast (drop_bit 8 v AND 0xFF) :: byte)
     + 65536 * unat (ucast (drop_bit 16 v AND 0xFF) :: byte)
     + 16777216 * unat (ucast (drop_bit 24 v AND 0xFF) :: byte) = unat v"
proof -
  have "unat v < 4294967296"
    using unsigned_less [of v, where 'a = nat] by simp
  then have "unat v div 16777216 mod 256 = unat v div 16777216"
    by simp
  then show ?thesis
    unfolding mask8_word
    apply (simp add: unsigned_ucast_eq unsigned_drop_bit_eq unsigned_take_bit_eq
        flip: take_bit_eq_mask)
    apply (simp add: take_bit_eq_mod drop_bit_eq_div nat_bytes_sum)
    done
qed

lemma nth_fwrite_out:
  "i < length (bytes f) \<Longrightarrow> i < position f \<or> position f + length bs \<le> i \<Longrightarrow>
   bytes (fwrite bs f) ! i = bytes f ! i"
  by (auto simp: fwrite_def nth_append)

lemma position_fwrite: "position (fwrite bs f) = position f + length bs"
  by (simp add: fwrite_def)

lemma u32_le_at_write_u32_le:
  "position f = k \<Longrightarrow> u32_le_at k (bytes (write_u32_le f v)) = unat v"
  unfolding u32_le_at_def write_u32_le_def
  by (simp add: nth_fwrite_in unat_u32_bytes)

lemma u32_le_at_cong:
  "bs ! k = cs ! k \<Longrightarrow> bs ! (k + 1) = cs ! (k + 1) \<Longrightarrow> bs ! (k + 2) = cs ! (k + 2) \<Longrightarrow>
   bs ! (k + 3) = cs ! (k + 3) \<Longrightarrow> u32_le_at k bs = u32_le_at k cs"
  by (simp add: u32_le_at_def)

lemma length_write_u32_le:
  "length (bytes (write_u32_le f v)) = max (length (bytes f)) (position f + 4)"
  by (simp add: write_u32_le_def length_fwrite)

lemma nth_write_u32_le_out:
  "i < length (bytes f) \<Longrightarrow> i < position f \<or> position f + 4 \<le> i \<Longrightarrow>
   bytes (write_u32_le f v) ! i = bytes f ! i"
  unfolding write_u32_le_def by (rule nth_fwrite_out) auto

lemma finalize_wav_header_fields:
  fixes content :: "byte list" and n :: "32 word" and c :: "16 word" and r :: "32 word"
  defines "f \<equiv> finalize_wav_header (fopen_rb content) n c r"
  shows "u32_le_at 4 (bytes f)
           = unat (4 + (8 + 16) + (8 + n * ucast c * ucast OUT_BYTES_PER_SAMPLE))"
    and "u32_le_at 40 (bytes f) = unat (n * ucast c * ucast OUT_BYTES_PER_SAMPLE)"
    and "length (bytes f) = max (length content) 44"
    and "i < length content \<Longrightarrow> i \<notin> {4..<8} \<union> {40..<44} \<Longrightarrow> bytes f ! i = content ! i"
proof -
  define data_bytes where "data_bytes = n * ucast c * (ucast OUT_BYTES_PER_SAMPLE :: 32 word)"
  define riff_size where "riff_size = 4 + (8 + 16) + (8 + data_bytes)"
  define f2 where "f2 = write_u32_le (fseek_set (fopen_rb content) 4) riff_size"
  have f: "f = write_u32_le (fseek_set f2 40) data_bytes"
    by (simp add: f_def finalize_wav_header_def Let_def f2_def riff_size_def data_bytes_def)
  have len2: "length (bytes f2) = max (length content) 8"
    by (simp add: f2_def length_write_u32_le fseek_set_def fopen_rb_def)
  have at4: "u32_le_at 4 (bytes f2) = unat riff_size"
    by (simp add: f2_def u32_le_at_write_u32_le fseek_set_def)
  have "u32_le_at 4 (bytes f) = u32_le_at 4 (bytes f2)"
    unfolding f
    by (intro u32_le_at_cong)
      (use len2 in \<open>simp_all add: nth_write_u32_le_out fseek_set_def\<close>)
  then show "u32_le_at 4 (bytes f)
               = unat (4 + (8 + 16) + (8 + n * ucast c * ucast OUT_BYTES_PER_SAMPLE))"
    by (simp only: at4 riff_size_def data_bytes_def)
  show "u32_le_at 40 (bytes f) = unat (n * ucast c * ucast OUT_BYTES_PER_SAMPLE)"
    unfolding f by (simp add: u32_le_at_write_u32_le fseek_set_def data_bytes_def)
  show "length (bytes f) = max (length content) 44"
    unfolding f by (simp add: length_write_u32_le fseek_set_def len2)
  show "bytes f ! i = content ! i" if "i < length content" "i \<notin> {4..<8} \<union> {40..<44}"
  proof -
    have away: "i < 4 \<or> 8 \<le> i" "i < 40 \<or> 44 \<le> i"
      using that by auto
    have "bytes f ! i = bytes (fseek_set f2 40) ! i"
      unfolding f
    proof (rule nth_write_u32_le_out)
      show "i < length (bytes (fseek_set f2 40))"
        using that(1) len2 by (simp add: fseek_set_def)
      show "i < position (fseek_set f2 40) \<or> position (fseek_set f2 40) + 4 \<le> i"
        using away(2) by (simp add: fseek_set_def)
    qed
    also have "\<dots> = bytes f2 ! i"
      by (simp add: fseek_set_def)
    also have "\<dots> = bytes (fseek_set (fopen_rb content) 4) ! i"
      unfolding f2_def
    proof (rule nth_write_u32_le_out)
      show "i < length (bytes (fseek_set (fopen_rb content) 4))"
        using that(1) by (simp add: fseek_set_def fopen_rb_def)
      show "i < position (fseek_set (fopen_rb content) 4)
              \<or> position (fseek_set (fopen_rb content) 4) + 4 \<le> i"
        using away(1) by (simp add: fseek_set_def)
    qed
    also have "\<dots> = content ! i"
      by (simp add: fseek_set_def fopen_rb_def)
    finally show ?thesis .
  qed
qed

text \<open>
  Claim C3, as amended. For a sample count \<open>N\<close> whose sizes fit 32 bits, the finalize step
  of \<open>main\<close> leaves \<open>4 + (8 + 16) + (8 + N * 3)\<close> in the little-endian field at offset 4
  and \<open>N * 3\<close> in the one at offset 40, and changes no other byte of the file.
\<close>

theorem finalize_patches_sizes:
  assumes "0 \<le> N" and "4 + (8 + 16) + (8 + N * 3) < 2 ^ 32"
  shows "\<exists>patched. main_finalize (Some content) N = Some patched
           \<and> u32_le_at 4 patched = nat (4 + (8 + 16) + (8 + N * 3))
           \<and> u32_le_at 40 patched = nat (N * 3)
           \<and> length patched = max (length content) 44
           \<and> (\<forall>i < length content.
                 i \<notin> {4..<8} \<union> {40..<44} \<longrightarrow> patched ! i = content ! i)"
proof -
  let ?n = "word_of_int N :: 32 word"
  let ?c = "ucast EXPECTED_CHANNEL_COUNT :: 16 word"
  define patched where
    "patched = bytes (finalize_wav_header (fopen_rb content) ?n ?c EXPECTED_SAMPLE_RATE)"
  have d: "?n * ucast ?c * ucast OUT_BYTES_PER_SAMPLE = (word_of_int (N * 3) :: 32 word)"
    by (simp add: EXPECTED_CHANNEL_COUNT_def OUT_BYTES_PER_SAMPLE_def)
  have r: "4 + (8 + 16) + (8 + ?n * ucast ?c * ucast OUT_BYTES_PER_SAMPLE)
             = (word_of_int (4 + (8 + 16) + (8 + N * 3)) :: 32 word)"
    by (simp add: EXPECTED_CHANNEL_COUNT_def OUT_BYTES_PER_SAMPLE_def)
  have small: "unat (word_of_int k :: 32 word) = nat k" if "0 \<le> k" "k < 2 ^ 32" for k
    using that by (simp add: unat_eq_nat_uint uint_word_of_int)
  have u4: "unat (word_of_int (4 + (8 + 16) + (8 + N * 3)) :: 32 word)
              = nat (4 + (8 + 16) + (8 + N * 3))"
    using assms by (intro small) simp_all
  have u40: "unat (word_of_int (N * 3) :: 32 word) = nat (N * 3)"
    using assms by (intro small) simp_all
  have p1: "main_finalize (Some content) N = Some patched"
    by (simp add: main_finalize_def patched_def)
  have p2: "u32_le_at 4 patched = nat (4 + (8 + 16) + (8 + N * 3))"
    unfolding patched_def finalize_wav_header_fields(1) r by (rule u4)
  have p3: "u32_le_at 40 patched = nat (N * 3)"
    unfolding patched_def finalize_wav_header_fields(2) d by (rule u40)
  have p4: "length patched = max (length content) 44"
    unfolding patched_def by (rule finalize_wav_header_fields(3))
  have p5: "patched ! i = content ! i"
    if "i < length content" "i \<notin> {4..<8} \<union> {40..<44}" for i
    unfolding patched_def using that by (rule finalize_wav_header_fields(4))
  from p1 p2 p3 p4 p5 show ?thesis
    by (intro exI [of _ patched] conjI allI impI)
qed

theorem finalize_patches_sizes_witness:
  "(0::int) \<le> 2 \<and> (4 + (8 + 16) + (8 + 2 * 3) :: int) < 2 ^ 32
   \<and> (\<exists>patched. main_finalize (Some placeholder_file) 2 = Some patched
         \<and> u32_le_at 4 patched = 42 \<and> u32_le_at 40 patched = 6
         \<and> length patched = 44)"
  using finalize_patches_sizes [of 2 placeholder_file]
  by (auto simp: placeholder_file_bytes)

text \<open>
  Claim C3 as stated fails once \<open>N * 3\<close> passes \<open>2 ^ 32\<close>: after 1431655766 samples (a count
  the \<open>int\<close> counter holds) the field at offset 40 reads 2 and the one at offset 4 reads 38.
\<close>

theorem finalize_wraps_counterexample:
  "main_finalize (Some placeholder_file) 1431655766 =
     Some [82, 73, 70, 70, 38, 0, 0, 0, 87, 65, 86, 69, 102, 109, 116, 32, 16, 0, 0, 0, 1, 0,
           1, 0, 128, 187, 0, 0, 128, 50, 2, 0, 3, 0, 24, 0, 100, 97, 116, 97, 2, 0, 0, 0]
   \<and> u32_le_at 40
        [82, 73, 70, 70, 38, 0, 0, 0, 87, 65, 86, 69, 102, 109, 116, 32, 16, 0, 0, 0, 1, 0,
         1, 0, 128, 187, 0, 0, 128, 50, 2, 0, 3, 0, 24, 0, 100, 97, 116, 97, 2, 0, 0, 0] = 2
   \<and> (2 :: nat) \<noteq> 1431655766 * 3"
  by (simp add: main_finalize_def placeholder_file_bytes finalize_wav_header_def fopen_rb_def
      fseek_set_def write_u32_le_def fwrite_def u32_le_at_def OUT_BYTES_PER_SAMPLE_def
      EXPECTED_CHANNEL_COUNT_def EXPECTED_SAMPLE_RATE_def Let_def)

section \<open>Properties of the read-exactly operations\<close>

lemma recv_all_loop_done:
  "\<not> total_received < required_bytes \<Longrightarrow>
   recv_all_loop sockfd buffer total_received required_bytes = (True, buffer, sockfd)"
  by (simp add: recv_all_loop.simps [of sockfd buffer total_received required_bytes])

lemma recv_all_loop_closed:
  "total_received < required_bytes \<Longrightarrow>
   recv_all_loop [] buffer total_received required_bytes = (False, buffer, [])"
  by (simp add: recv_all_loop.simps [of "[]" buffer total_received required_bytes])

lemma recv_all_loop_Eintr:
  "total_received < required_bytes \<Longrightarrow>
   recv_all_loop (Eintr # sockfd) buffer total_received required_bytes
     = recv_all_loop sockfd buffer total_received required_bytes"
  by (simp add: recv_all_loop.simps [of "Eintr # sockfd" buffer total_received required_bytes])

lemma recv_all_loop_Error:
  "total_received < required_bytes \<Longrightarrow>
   recv_all_loop (Error # sockfd) buffer total_received required_bytes = (False, buffer, sockfd)"
  by (simp add: recv_all_loop.simps [of "Error # sockfd" buffer total_received required_bytes])

lemma recv_all_loop_Data_empty:
  "total_received < required_bytes \<Longrightarrow>
   recv_all_loop (Data [] # sockfd) buffer total_received required_bytes = (False, buffer, sockfd)"
  by (simp add: recv_all_loop.simps [of "Data [] # sockfd" buffer total_received required_bytes])

lemma recv_all_loop_Data_whole:
  "total_received < required_bytes \<Longrightarrow> bs \<noteq> [] \<Longrightarrow>
   length bs \<le> required_bytes - total_received \<Longrightarrow>
   recv_all_loop (Data bs # sockfd) buffer total_received required_bytes
     = recv_all_loop sockfd (store buffer total_received bs) (total_received + length bs)
         required_bytes"
  by (simp add: recv_all_loop.simps [of "Data bs # sockfd" buffer total_received required_bytes])

lemma recv_all_loop_Data_part:
  "total_received < required_bytes \<Longrightarrow> required_bytes - total_received < length bs \<Longrightarrow>
   recv_all_loop (Data bs # sockfd) buffer total_received required_bytes
     = (True, store buffer total_received (take (required_bytes - total_received) bs),
        Data (drop (required_bytes - total_received) bs) # sockfd)"
  by (simp add: recv_all_loop.simps [of "Data bs # sockfd" buffer total_received required_bytes]
      recv_all_loop_done)

lemmas recv_all_loop_eval =
  recv_all_loop_done recv_all_loop_closed recv_all_loop_Eintr recv_all_loop_Error
  recv_all_loop_Data_empty recv_all_loop_Data_whole recv_all_loop_Data_part

lemma recv_Received_incoming:
  "recv sock n = (Received bs, sock') \<Longrightarrow>
   incoming sock = bs @ incoming sock' \<and> length bs \<le> n"
  by (cases "(sock, n)" rule: recv.cases) (auto simp: incoming_def split: if_splits)

lemma recv_Interrupted_incoming:
  "recv sock n = (Interrupted, sock') \<Longrightarrow> incoming sock = incoming sock'"
  by (cases "(sock, n)" rule: recv.cases) (auto simp: incoming_def split: if_splits)

lemma length_store:
  "offset + length bs \<le> length buffer \<Longrightarrow> length (store buffer offset bs) = length buffer"
  by (simp add: store_def)

lemma store_prefix:
  "offset + length bs \<le> length buffer \<Longrightarrow>
   take (offset + length bs) (store buffer offset bs) = take offset buffer @ bs"
  by (simp add: store_def)

lemma store_suffix:
  "offset + length bs \<le> n \<Longrightarrow> n \<le> length buffer \<Longrightarrow>
   drop n (store buffer offset bs) = drop n buffer"
  by (simp add: store_def)

text \<open>
  \<open>recv_all\<close> returns success only with exactly the next \<open>required_bytes\<close> bytes of the
  stream in the buffer, and leaves the rest of the stream on the socket.
\<close>

lemma recv_all_loop_exact:
  "recv_all_loop sockfd buffer total_received required_bytes = (True, buffer', sockfd') \<Longrightarrow>
   total_received \<le> required_bytes \<Longrightarrow> required_bytes \<le> length buffer \<Longrightarrow>
   buffer' = take total_received buffer
               @ take (required_bytes - total_received) (incoming sockfd)
               @ drop required_bytes buffer
   \<and> required_bytes - total_received \<le> length (incoming sockfd)
   \<and> incoming sockfd' = drop (required_bytes - total_received) (incoming sockfd)"
proof (induction sockfd buffer total_received required_bytes rule: recv_all_loop.induct)
  case (1 sockfd buffer total_received required_bytes)
  show ?case
  proof (cases "total_received < required_bytes")
    case False
    with "1.prems" show ?thesis
      by (simp add: recv_all_loop.simps [of sockfd buffer total_received required_bytes])
  next
    case True
    obtain r s where rs: "recv sockfd (required_bytes - total_received) = (r, s)"
      by (cases "recv sockfd (required_bytes - total_received)")
    show ?thesis
    proof (cases r)
      case Interrupted
      have eq: "incoming sockfd = incoming s"
        using rs Interrupted by (simp add: recv_Interrupted_incoming)
      have "recv_all_loop s buffer total_received required_bytes = (True, buffer', sockfd')"
        using "1.prems" True rs Interrupted
        by (simp add: recv_all_loop.simps [of sockfd buffer total_received required_bytes])
      from "1.IH"(2) [OF True rs [symmetric] Interrupted this "1.prems"(2,3)] show ?thesis
        by (simp only: eq)
    next
      case Failed
      with "1.prems" True rs show ?thesis
        by (simp add: recv_all_loop.simps [of sockfd buffer total_received required_bytes])
    next
      case (Received bs)
      have inc: "incoming sockfd = bs @ incoming s"
        and len: "length bs \<le> required_bytes - total_received"
        using recv_Received_incoming [of sockfd "required_bytes - total_received" bs s] rs Received
        by simp_all
      show ?thesis
      proof (cases "length bs = 0")
        case True
        with "1.prems" \<open>total_received < required_bytes\<close> rs Received show ?thesis
          by (simp add: recv_all_loop.simps [of sockfd buffer total_received required_bytes])
      next
        case False
        have call: "recv_all_loop s (store buffer total_received bs) (total_received + length bs)
                required_bytes = (True, buffer', sockfd')"
          using "1.prems" \<open>total_received < required_bytes\<close> rs Received False
          by (simp add: recv_all_loop.simps [of sockfd buffer total_received required_bytes])
        have le: "total_received + length bs \<le> required_bytes"
          using len True by simp
        have fit: "total_received + length bs \<le> length buffer"
          using le "1.prems"(3) by simp
        have ls: "required_bytes \<le> length (store buffer total_received bs)"
          using "1.prems"(3) by (simp add: length_store [OF fit])
        note ih = "1.IH"(1) [OF \<open>total_received < required_bytes\<close> rs [symmetric] Received
            False call le ls]
        have split: "take (required_bytes - total_received) (bs @ incoming s)
                 = bs @ take (required_bytes - (total_received + length bs)) (incoming s)"
          using len by simp
        have dsplit: "drop (required_bytes - total_received) (bs @ incoming s)
                 = drop (required_bytes - (total_received + length bs)) (incoming s)"
          using len by simp
        show ?thesis
          using ih len
          by (simp only: inc split dsplit store_prefix [OF fit]
              store_suffix [OF le "1.prems"(3)] append_assoc length_append) (simp, arith)
      qed
    qed
  qed
qed

lemma recv_all_exact:
  assumes "recv_all sockfd buffer required_bytes = (True, buffer', sockfd')"
    and "required_bytes \<le> length buffer"
  shows "buffer' = take required_bytes (incoming sockfd) @ drop required_bytes buffer"
    and "required_bytes \<le> length (incoming sockfd)"
    and "incoming sockfd' = drop required_bytes (incoming sockfd)"
  using recv_all_loop_exact [OF assms(1) [unfolded recv_all_def] _ assms(2)] by simp_all

text \<open>With nothing asked for it succeeds at once; on a stream too short it fails.\<close>

lemma recv_all_nothing: "recv_all sockfd buffer 0 = (True, buffer, sockfd)"
  by (simp add: recv_all_def recv_all_loop_done)

lemma recv_all_short_stream:
  assumes "length (incoming sockfd) < required_bytes" and "required_bytes \<le> length buffer"
  shows "fst (recv_all sockfd buffer required_bytes) = False"
proof (rule ccontr)
  assume "fst (recv_all sockfd buffer required_bytes) \<noteq> False"
  then obtain buffer' sockfd' where
    "recv_all sockfd buffer required_bytes = (True, buffer', sockfd')"
    by (cases "recv_all sockfd buffer required_bytes") auto
  from recv_all_exact(2) [OF this assms(2)] assms(1) show False
    by simp
qed

lemma recive_full_loop_stuck:
  "Error \<notin> set sock \<Longrightarrow> total_recived_bytes < required_bytes \<Longrightarrow>
   recive_full_loop fuel sock buffer total_recived_bytes required_bytes = None"
proof (induction fuel arbitrary: sock buffer)
  case 0
  show ?case by simp
next
  case (Suc fuel)
  show ?case
  proof (cases sock)
    case Nil
    then show ?thesis
      using Suc.prems Suc.IH [of "[]"] by simp
  next
    case (Cons ev rest)
    then show ?thesis
      using Suc.prems Suc.IH [of rest] Suc.IH [of "Data (drop (required_bytes - total_recived_bytes) bs) # rest" for bs]
      by (cases ev) auto
  qed
qed

lemma recive_full_never_true:
  "0 < required_bytes \<Longrightarrow> recive_full fuel sock buffer required_bytes \<noteq> Some (True, buffer', sock')"
  unfolding recive_full_def
proof (induction fuel arbitrary: sock buffer)
  case 0
  show ?case by simp
next
  case (Suc fuel)
  then show ?case
    by (cases "recv sock required_bytes") (auto split: recv_result.splits)
qed

text \<open>
  Claim C9 at a stream that delivers the four bytes asked for and at one the peer has
  closed: \<open>recive_full\<close> returns for no amount of fuel, where \<open>recv_all\<close> returns success
  with the four bytes and failure.
\<close>

theorem recive_full_does_not_return:
  "recive_full fuel [Data [1, 2, 3, 4]] [0, 0, 0, 0] 4 = None
   \<and> recive_full fuel [] [0, 0, 0, 0] 4 = None
   \<and> recv_all [Data [1, 2, 3, 4]] [0, 0, 0, 0] 4 = (True, [1, 2, 3, 4], [])
   \<and> recv_all [] [0, 0, 0, 0] 4 = (False, [0, 0, 0, 0], [])"
  by (simp add: recive_full_def recive_full_loop_stuck recv_all_def recv_all_loop_eval store_def)

section \<open>Properties of the session loop\<close>

lemma packet_loop_break:
  "packet_iteration client_fd f g = (Some e, f', g', client_fd') \<Longrightarrow>
   packet_loop client_fd f g = (e, f', g', client_fd')"
  by (simp add: packet_loop.simps [of client_fd f g])

lemma packet_loop_next:
  "packet_iteration client_fd f g = (None, f', g', client_fd') \<Longrightarrow>
   packet_loop client_fd f g = packet_loop client_fd' f' g'"
  by (simp add: packet_loop.simps [of client_fd f g])

lemma frames_below_limit: "\<not> MAX_FRAMES_LIMIT < ucast (frames_in_packet header_buffer)"
proof -
  have "unat (ucast (frames_in_packet header_buffer) :: 64 word) < 65536"
    using unsigned_less [of "frames_in_packet header_buffer", where 'a = nat]
    by (simp add: unsigned_ucast_eq take_bit_nat_eq_self)
  moreover have "unat MAX_FRAMES_LIMIT = 65536"
    by (simp add: MAX_FRAMES_LIMIT_def)
  ultimately show ?thesis
    by (simp add: word_less_nat_alt)
qed


lemma payload_nonzero_frames:
  "payload_bytes header_buffer \<noteq> 0 \<Longrightarrow> frames_in_packet header_buffer \<noteq> 0"
  by (auto simp: payload_bytes_def)

lemma packet_iteration_not_suspicious:
  "fst (packet_iteration client_fd f g) \<noteq> Some SuspiciousFrames"
  unfolding packet_iteration_def
  by (auto simp: frames_below_limit payload_nonzero_frames
      split: prod.splits bool.splits option.splits)

lemma packet_loop_not_suspicious: "fst (packet_loop client_fd f g) \<noteq> SuspiciousFrames"
proof (induction client_fd f g rule: packet_loop.induct)
  case (1 client_fd f g)
  obtain r f' g' s' where it: "packet_iteration client_fd f g = (r, f', g', s')"
    by (cases "packet_iteration client_fd f g")
  show ?case
  proof (cases r)
    case None
    with it "1.IH" [OF it [symmetric] None refl refl] show ?thesis
      by (simp add: packet_loop_next)
  next
    case (Some e)
    with it packet_iteration_not_suspicious [of client_fd f g] show ?thesis
      by (simp add: packet_loop_break)
  qed
qed


lemma placeholder_stream_bytes:
  "bytes (fseek_end (write_wav_header_placeholder fopen_wb EXPECTED_SAMPLE_RATE
                      (ucast EXPECTED_CHANNEL_COUNT))) = placeholder_file"
  by (simp add: fseek_end_def placeholder_file_def)

lemma bad_magic_iteration:
  assumes "recv_all client_fd (replicate HEADER_SIZE 0) HEADER_SIZE = (True, header_buffer, rest)"
    and "magic header_buffer \<noteq> HEADER_MAGIC"
  shows "packet_iteration client_fd f g = (Some BadHeaderMagic, f, g, rest)"
  using assms by (simp add: packet_iteration_def)


lemma payload_failure_iteration:
  assumes "recv_all client_fd (replicate HEADER_SIZE 0) HEADER_SIZE = (True, header_buffer, rest)"
    and "magic header_buffer = HEADER_MAGIC" and "payload_bytes header_buffer \<noteq> 0"
    and "recv_all rest (replicate (unat (payload_bytes header_buffer)) 0)
           (unat (payload_bytes header_buffer)) = (False, payload_buffer, rest')"
  shows "packet_iteration client_fd f g = (Some PayloadReceiveFailed, f, g, rest')"
  using assms
  by (simp add: packet_iteration_def frames_below_limit payload_nonzero_frames)

text \<open>
  Claim C4. When the four bytes at the head of a received header are not the magic
  constant, the packet loop ends there: the file and the counters are as they were, and
  what the socket still holds is not read. If it is the first header of a connection the
  file holds the placeholder header alone, and the listener serves the connections that
  follow as it would have otherwise.
\<close>

theorem bad_magic_closes_connection:
  assumes "recv_all client_fd (replicate HEADER_SIZE 0) HEADER_SIZE = (True, header_buffer, rest)"
    and "magic header_buffer \<noteq> HEADER_MAGIC"
  shows "packet_loop client_fd output_wav_file g = (BadHeaderMagic, output_wav_file, g, rest)
    \<and> serve_connection client_fd g = (BadHeaderMagic, placeholder_file, g)
    \<and> tcp_audio_receiver_server_loop (client_fd # clients) wav g =
        (case tcp_audio_receiver_server_loop clients (Some placeholder_file) g of
           (es, wav', g') \<Rightarrow> (BadHeaderMagic # es, wav', g'))"
proof -
  have loop: "packet_loop client_fd f g = (BadHeaderMagic, f, g, rest)" for f
    by (rule packet_loop_break) (rule bad_magic_iteration [OF assms])
  have conn: "serve_connection client_fd g = (BadHeaderMagic, placeholder_file, g)"
    by (simp add: serve_connection_def Let_def loop placeholder_stream_bytes)
  show ?thesis
    by (simp add: loop conn)
qed

theorem bad_magic_closes_connection_witness:
  "recv_all [Data (replicate 34 0), Data [1, 2, 3]] (replicate HEADER_SIZE 0) HEADER_SIZE
     = (True, replicate 34 0, [Data [1, 2, 3]])
   \<and> magic (replicate 34 0) \<noteq> HEADER_MAGIC
   \<and> tcp_audio_receiver_server_loop [[Data (replicate 34 0), Data [1, 2, 3]]] None
        \<lparr>makeup_gain = 1, total_samples_written_count = 0,
         highest_received_sample_index = 0, last_received_sequence = 0\<rparr>
     = ([BadHeaderMagic], Some placeholder_file,
        \<lparr>makeup_gain = 1, total_samples_written_count = 0,
         highest_received_sample_index = 0, last_received_sequence = 0\<rparr>)"
proof -
  have h: "recv_all [Data (replicate 34 0), Data [1, 2, 3]] (replicate HEADER_SIZE 0) HEADER_SIZE
             = (True, replicate 34 0, [Data [1, 2, 3]])"
    by (simp add: recv_all_def HEADER_SIZE_def recv_all_loop_eval store_def)
  have m: "magic (replicate 34 0) \<noteq> HEADER_MAGIC"
    by (simp add: magic_def HEADER_MAGIC_def)
  show ?thesis
    using bad_magic_closes_connection [OF h m, of fopen_wb
        "\<lparr>makeup_gain = 1, total_samples_written_count = 0,
          highest_received_sample_index = 0, last_received_sequence = 0\<rparr>" "[]" None] h m
    by simp
qed



text \<open>
  Claim C8 on the code. The frame count is a \<open>uint16_t\<close> and the limit is \<open>1 << 16\<close>, so the
  comparison is never true, and a count of zero has already left the turn through the
  empty payload: no header ends the loop at the frame check. With the largest counts a
  header can carry, 65535 frames of 255 channels and 255 bytes, the loop goes on to the
  payload read of 4261413375 bytes.
\<close>

theorem frame_limit_rejects_nothing:
  "\<not> MAX_FRAMES_LIMIT < ucast (frames_in_packet header_buffer)
   \<and> fst (packet_iteration client_fd output_wav_file g) \<noteq> Some SuspiciousFrames
   \<and> fst (packet_loop client_fd output_wav_file g) \<noteq> SuspiciousFrames
   \<and> frames_in_packet
        [0x32, 0x50, 0x53, 0x45, 7, 0, 0, 0, 0, 0, 0, 0, 0, 0, 0, 0, 0, 0, 0, 0,
         0, 0, 0, 0, 0xFF, 0xFF, 0xFF, 0xFF, 0x80, 0xBB, 0, 0, 1, 0] = 0xFFFF
   \<and> payload_bytes
        [0x32, 0x50, 0x53, 0x45, 7, 0, 0, 0, 0, 0, 0, 0, 0, 0, 0, 0, 0, 0, 0, 0,
         0, 0, 0, 0, 0xFF, 0xFF, 0xFF, 0xFF, 0x80, 0xBB, 0, 0, 1, 0] = 4261413375
   \<and> packet_iteration
        [Data [0x32, 0x50, 0x53, 0x45, 7, 0, 0, 0, 0, 0, 0, 0, 0, 0, 0, 0, 0, 0, 0, 0,
               0, 0, 0, 0, 0xFF, 0xFF, 0xFF, 0xFF, 0x80, 0xBB, 0, 0, 1, 0]]
        output_wav_file g
     = (Some PayloadReceiveFailed, output_wav_file, g, [])"
proof -
  let ?h = "[0x32, 0x50, 0x53, 0x45, 7, 0, 0, 0, 0, 0, 0, 0, 0, 0, 0, 0, 0, 0, 0, 0,
             0, 0, 0, 0, 0xFF, 0xFF, 0xFF, 0xFF, 0x80, 0xBB, 0, 0, 1, 0] :: byte list"
  have h: "recv_all [Data ?h] (replicate HEADER_SIZE 0) HEADER_SIZE = (True, ?h, [])"
    by (simp add: recv_all_def HEADER_SIZE_def recv_all_loop_eval store_def)
  have m: "magic ?h = HEADER_MAGIC"
    by (simp add: magic_def HEADER_MAGIC_def)
  have fr: "frames_in_packet ?h = 0xFFFF"
    by (simp add: frames_in_packet_def)
  have p: "payload_bytes ?h = 4261413375"
    by (simp add: payload_bytes_def fr channels_in_packet_def bytes_per_sample_in_packet_def)
  have pn: "payload_bytes ?h \<noteq> 0"
    by (simp add: p)
  have r: "recv_all [] (replicate (unat (payload_bytes ?h)) 0) (unat (payload_bytes ?h))
             = (False, replicate (unat (payload_bytes ?h)) 0, [])"
    unfolding recv_all_def by (rule recv_all_loop_closed) (simp add: p)
  have it: "packet_iteration [Data ?h] output_wav_file g
              = (Some PayloadReceiveFailed, output_wav_file, g, [])"
    by (rule payload_failure_iteration [OF h m pn r])
  show ?thesis
    by (simp only: frames_below_limit packet_iteration_not_suspicious
        packet_loop_not_suspicious fr p it simp_thms)
qed


lemma convert_sample_gain_one: "convert_sample s 1 = int32_left24_to_3bytes_le s"
  by (simp only: convert_sample_def three_bytes_def scaled_i32_gain_one)

lemma convert_sample_reciver_eq: "convert_sample_reciver s gain = convert_sample s gain"
  by (simp only: convert_sample_reciver_def convert_sample_def three_bytes_reciver_eq)


text \<open>
  Claim C6. When the read of the payload fails, having delivered fewer bytes than the
  header announced, the packet loop ends there: nothing of that packet is converted or
  written, the counters are as they were, and what the socket still holds is not read.
  If it is the first packet of a connection the file holds the placeholder header alone,
  and the listener serves the connections that follow as it would have otherwise.
\<close>

theorem payload_short_read_aborts:
  assumes "recv_all client_fd (replicate HEADER_SIZE 0) HEADER_SIZE = (True, header_buffer, rest)"
    and "magic header_buffer = HEADER_MAGIC"
    and "recv_all rest (replicate (unat (payload_bytes header_buffer)) 0)
           (unat (payload_bytes header_buffer)) = (False, payload_buffer, rest')"
  shows "packet_loop client_fd output_wav_file g
           = (PayloadReceiveFailed, output_wav_file, g, rest')
    \<and> serve_connection client_fd g = (PayloadReceiveFailed, placeholder_file, g)
    \<and> tcp_audio_receiver_server_loop (client_fd # clients) wav g =
        (case tcp_audio_receiver_server_loop clients (Some placeholder_file) g of
           (es, wav', g') \<Rightarrow> (PayloadReceiveFailed # es, wav', g'))"
proof -
  have nz: "payload_bytes header_buffer \<noteq> 0"
  proof
    assume "payload_bytes header_buffer = 0"
    with assms(3) show False
      by (simp add: recv_all_nothing)
  qed
  have loop: "packet_loop client_fd f g = (PayloadReceiveFailed, f, g, rest')" for f
    by (rule packet_loop_break) (rule payload_failure_iteration [OF assms(1,2) nz assms(3)])
  have conn: "serve_connection client_fd g = (PayloadReceiveFailed, placeholder_file, g)"
    by (simp add: serve_connection_def Let_def loop placeholder_stream_bytes)
  show ?thesis
    by (simp add: loop conn)
qed

theorem payload_short_read_aborts_witness:
  "recv_all [Data [0x32, 0x50, 0x53, 0x45, 7, 0, 0, 0, 5, 0, 0, 0, 0, 0, 0, 0, 0, 0, 0, 0,
                   0, 0, 0, 0, 1, 0, 1, 4, 0x80, 0xBB, 0, 0, 1, 0], Data [0, 1]]
       (replicate HEADER_SIZE 0) HEADER_SIZE
     = (True, [0x32, 0x50, 0x53, 0x45, 7, 0, 0, 0, 5, 0, 0, 0, 0, 0, 0, 0, 0, 0, 0, 0,
               0, 0, 0, 0, 1, 0, 1, 4, 0x80, 0xBB, 0, 0, 1, 0], [Data [0, 1]])
   \<and> magic [0x32, 0x50, 0x53, 0x45, 7, 0, 0, 0, 5, 0, 0, 0, 0, 0, 0, 0, 0, 0, 0, 0,
             0, 0, 0, 0, 1, 0, 1, 4, 0x80, 0xBB, 0, 0, 1, 0] = HEADER_MAGIC
   \<and> unat (payload_bytes [0x32, 0x50, 0x53, 0x45, 7, 0, 0, 0, 5, 0, 0, 0, 0, 0, 0, 0, 0,
                           0, 0, 0, 0, 0, 0, 0, 1, 0, 1, 4, 0x80, 0xBB, 0, 0, 1, 0]) = 4
   \<and> recv_all [Data [0, 1]] (replicate 4 0) 4 = (False, [0, 1, 0, 0], [])
   \<and> tcp_audio_receiver_server_loop
        [[Data [0x32, 0x50, 0x53, 0x45, 7, 0, 0, 0, 5, 0, 0, 0, 0, 0, 0, 0, 0, 0, 0, 0,
                0, 0, 0, 0, 1, 0, 1, 4, 0x80, 0xBB, 0, 0, 1, 0], Data [0, 1]]] None
        \<lparr>makeup_gain = 1, total_samples_written_count = 0,
         highest_received_sample_index = 0, last_received_sequence = 0\<rparr>
     = ([PayloadReceiveFailed], Some placeholder_file,
        \<lparr>makeup_gain = 1, total_samples_written_count = 0,
         highest_received_sample_index = 0, last_received_sequence = 0\<rparr>)"
proof -
  let ?h = "[0x32, 0x50, 0x53, 0x45, 7, 0, 0, 0, 5, 0, 0, 0, 0, 0, 0, 0, 0, 0, 0, 0,
             0, 0, 0, 0, 1, 0, 1, 4, 0x80, 0xBB, 0, 0, 1, 0] :: byte list"
  let ?g = "\<lparr>makeup_gain = 1, total_samples_written_count = 0,
             highest_received_sample_index = 0, last_received_sequence = 0\<rparr>"
  have h: "recv_all [Data ?h, Data [0, 1]] (replicate HEADER_SIZE 0) HEADER_SIZE
             = (True, ?h, [Data [0, 1]])"
    by (simp add: recv_all_def HEADER_SIZE_def recv_all_loop_eval store_def)
  have m: "magic ?h = HEADER_MAGIC"
    by (simp add: magic_def HEADER_MAGIC_def)
  have u: "unat (payload_bytes ?h) = 4"
    by (simp add: payload_bytes_def frames_in_packet_def channels_in_packet_def
        bytes_per_sample_in_packet_def)
  have z: "replicate 4 (0 :: byte) = [0, 0, 0, 0]"
    by (simp add: numeral_eq_Suc)
  have r4: "recv_all [Data [0, 1]] (replicate 4 0) 4 = (False, [0, 1, 0, 0], [])"
    unfolding z by (simp add: recv_all_def recv_all_loop_eval store_def)
  have r: "recv_all [Data [0, 1]] (replicate (unat (payload_bytes ?h)) 0)
             (unat (payload_bytes ?h)) = (False, [0, 1, 0, 0], [])"
    unfolding u by (rule r4)
  show ?thesis
    using payload_short_read_aborts [OF h m r, of fopen_wb ?g "[]" None] h m u r4
    by simp
qed

text \<open>
  In the specification's words: when the stream behind the header holds fewer bytes than
  the payload needs, the read fails and the session ends as above.
\<close>

lemma short_payload_stream_aborts:
  assumes "recv_all client_fd (replicate HEADER_SIZE 0) HEADER_SIZE = (True, header_buffer, rest)"
    and "magic header_buffer = HEADER_MAGIC"
    and "length (incoming rest) < unat (payload_bytes header_buffer)"
  shows "\<exists>rest'. packet_loop client_fd output_wav_file g
           = (PayloadReceiveFailed, output_wav_file, g, rest')"
proof -
  let ?n = "unat (payload_bytes header_buffer)"
  have "fst (recv_all rest (replicate ?n 0) ?n) = False"
    using assms(3) by (rule recv_all_short_stream) simp
  then obtain payload_buffer rest' where
    r: "recv_all rest (replicate ?n 0) ?n = (False, payload_buffer, rest')"
    by (cases "recv_all rest (replicate ?n 0) ?n") auto
  have nz: "payload_bytes header_buffer \<noteq> 0"
    using assms(3) by auto
  have "packet_loop client_fd output_wav_file g
          = (PayloadReceiveFailed, output_wav_file, g, rest')"
    by (rule packet_loop_break) (rule payload_failure_iteration [OF assms(1,2) nz r])
  then show ?thesis ..
qed

text \<open>
  The packet loop of \<^verbatim>\<open>esp_audio_reciver.cpp\<close> is never entered: the \<open>if\<close> in front of it
  ends in a semicolon, so the block under it closes every connection and goes back to
  \<open>accept\<close>; and \<open>recive_full\<close> returns true to no request for a header. What its text says
  is therefore without effect. As written, it has no \<open>break\<close> after a failed payload read
  and would convert what the payload vector holds.
\<close>

lemma payload_failure_only_logged_reciver:
  "recive_full 2 [Data [0, 1], Error] [0, 0, 0, 0] 4 = Some (False, [0, 1, 0, 0], [])
   \<and> after_payload_read_reciver False [0, 1, 0, 0]
        [0x32, 0x50, 0x53, 0x45, 7, 0, 0, 0, 5, 0, 0, 0, 0, 0, 0, 0, 0, 0, 0, 0,
         0, 0, 0, 0, 1, 0, 1, 4, 0x80, 0xBB, 0, 0, 1, 0] 1
     = Some [1, 0, 0]"
proof -
  let ?h = "[0x32, 0x50, 0x53, 0x45, 7, 0, 0, 0, 5, 0, 0, 0, 0, 0, 0, 0, 0, 0, 0, 0,
             0, 0, 0, 0, 1, 0, 1, 4, 0x80, 0xBB, 0, 0, 1, 0] :: byte list"
  have rf: "recive_full 2 [Data [0, 1], Error] [0, 0, 0, 0] 4 = Some (False, [0, 1, 0, 0], [])"
    by (simp add: recive_full_def numeral_2_eq_2 store_def)
  have fr: "frames_in_packet ?h = 1"
    by (simp add: frames_in_packet_def)
  have sample: "le_bytes_to_int32 [0, 1, 0, 0] 0 = Some 0x100"
    by (simp add: le_bytes_to_int32_def)
  have bytes3: "int32_left24_to_3bytes_le 0x100 = [1, 0, 0]"
    by (simp add: int32_left24_to_3bytes_le_def)
  have conv: "convert_frames_reciver 1 [0, 1, 0, 0] [0..<unat (frames_in_packet ?h)] []
                = Some [1, 0, 0]"
    by (simp add: fr sample convert_sample_reciver_eq convert_sample_gain_one bytes3)
  have v1: "after_payload_read_reciver False [0, 1, 0, 0] ?h 1 = Some [1, 0, 0]"
    by (simp only: after_payload_read_reciver_def conv)
  show ?thesis
    by (simp only: rf v1 simp_thms)
qed

section \<open>Properties of the packet codec\<close>

lemma nat_or_push_bit:
  fixes a y :: nat
  assumes "a < 2 ^ k"
  shows "a OR push_bit k y = a + 2 ^ k * y"
proof -
  have "take_bit k a AND push_bit k y = 0"
    by (rule bit_eqI) (auto simp: bit_simps)
  moreover have "take_bit k a = a"
    using assms by (simp add: take_bit_nat_eq_self)
  ultimately have "a AND push_bit k y = 0"
    by simp
  then have "a + push_bit k y = a OR push_bit k y"
    by (rule disjunctive_add_eq_or)
  then have "a OR push_bit k y = a + push_bit k y"
    by (rule sym)
  then show ?thesis
    by (simp only: push_bit_eq_mult mult.commute)
qed

lemma or_byte_shift:
  fixes acc :: "'a::len word" and b :: byte
  assumes "unat acc < 2 ^ k" and "k + 8 \<le> LENGTH('a)"
  shows "unat (acc OR push_bit k (ucast b)) = unat acc + 2 ^ k * unat b"
proof -
  have b: "unat b < 2 ^ 8"
    using unsigned_less [of b, where 'a = nat] by simp
  have "2 ^ k * unat b < 2 ^ k * 2 ^ 8"
    using b by simp
  then have pb: "2 ^ k * unat b < 2 ^ (k + 8)"
    by (simp add: power_add)
  have le: "(2::nat) ^ (k + 8) \<le> 2 ^ LENGTH('a)"
    using assms(2) by (intro power_increasing) simp_all
  have "(2::nat) ^ 8 \<le> 2 ^ LENGTH('a)"
    using assms(2) by (intro power_increasing) simp_all
  then have ub: "unat (ucast b :: 'a word) = unat b"
    using b by (simp add: unsigned_ucast_eq take_bit_nat_eq_self)
  have "2 ^ k * unat b < 2 ^ LENGTH('a)"
    by (rule less_le_trans [OF pb le])
  then have "push_bit k (unat b) < 2 ^ LENGTH('a)"
    by (simp only: push_bit_eq_mult mult.commute)
  then have up: "unat (push_bit k (ucast b) :: 'a word) = push_bit k (unat b)"
    by (simp only: unsigned_push_bit_eq ub take_bit_nat_eq_self)
  show ?thesis
    by (simp only: unsigned_or_eq up nat_or_push_bit [OF assms(1)])
qed


lemma unat_le32:
  fixes b0 b1 b2 b3 :: byte
  shows "unat (ucast b0 OR push_bit 8 (ucast b1) OR push_bit 16 (ucast b2)
               OR push_bit 24 (ucast b3) :: 32 word)
         = unat b0 + 256 * unat b1 + 65536 * unat b2 + 16777216 * unat b3"
proof -
  have b: "unat x < 256" for x :: byte
    using unsigned_less [of x, where 'a = nat] by simp
  let ?a0 = "ucast b0 :: 32 word"
  let ?a1 = "?a0 OR push_bit 8 (ucast b1)"
  let ?a2 = "?a1 OR push_bit 16 (ucast b2)"
  let ?a3 = "?a2 OR push_bit 24 (ucast b3)"
  have u0: "unat ?a0 = unat b0"
    using b [of b0] by (simp add: unsigned_ucast_eq take_bit_nat_eq_self)
  have "unat ?a1 = unat ?a0 + 2 ^ 8 * unat b1"
    by (rule or_byte_shift) (use b [of b0] in \<open>simp_all add: u0\<close>)
  then have u1: "unat ?a1 = unat b0 + 256 * unat b1"
    by (simp add: u0)
  have "unat ?a2 = unat ?a1 + 2 ^ 16 * unat b2"
    by (rule or_byte_shift) (use b [of b0] b [of b1] in \<open>simp_all add: u1\<close>)
  then have u2: "unat ?a2 = unat b0 + 256 * unat b1 + 65536 * unat b2"
    by (simp add: u1)
  have "unat ?a3 = unat ?a2 + 2 ^ 24 * unat b3"
    by (rule or_byte_shift) (use b [of b0] b [of b1] b [of b2] in \<open>simp_all add: u2\<close>)
  then have u3: "unat ?a3 = unat b0 + 256 * unat b1 + 65536 * unat b2 + 16777216 * unat b3"
    by (simp add: u2)
  have "ucast b0 OR push_bit 8 (ucast b1) OR push_bit 16 (ucast b2) OR push_bit 24 (ucast b3)
          = ?a3"
    by (simp only: or.assoc)
  then show ?thesis
    by (simp only: u3)
qed


lemma le_value_append: "le_value (xs @ ys) = le_value xs + 256 ^ length xs * le_value ys"
  by (induction xs) (simp_all add: algebra_simps)

lemma le_value_less: "le_value xs < 256 ^ length xs"
proof (induction xs)
  case Nil
  show ?case by simp
next
  case (Cons b bs)
  have "unat b < 256"
    using unsigned_less [of b, where 'a = nat] by simp
  with Cons show ?case
    by simp
qed

lemma field_nth:
  "offset + width \<le> length header \<Longrightarrow>
   field offset width header = map (\<lambda>i. header ! (offset + i)) [0..<width]"
  unfolding field_def by (rule nth_equalityI) simp_all

lemma unat_fold_le64:
  assumes "n \<le> 8"
  shows "unat (fold (\<lambda>i acc. acc OR push_bit (8 * i) (ucast (header ! (offset + i))))
                 [0..<n] (0 :: 64 word))
         = le_value (map (\<lambda>i. header ! (offset + i)) [0..<n])"
  using assms
proof (induction n)
  case 0
  show ?case by simp
next
  case (Suc n)
  let ?f = "\<lambda>i acc. acc OR push_bit (8 * i) (ucast (header ! (offset + i))) :: 64 word"
  let ?bs = "map (\<lambda>i. header ! (offset + i)) [0..<n]"
  have ih: "unat (fold ?f [0..<n] 0) = le_value ?bs"
    using Suc by simp
  have "le_value ?bs < 256 ^ n"
    using le_value_less [of ?bs] by simp
  then have small: "unat (fold ?f [0..<n] 0) < 2 ^ (8 * n)"
    by (simp add: ih power_mult)
  have "unat (fold ?f [0..<n] 0 OR push_bit (8 * n) (ucast (header ! (offset + n))))
          = unat (fold ?f [0..<n] 0) + 2 ^ (8 * n) * unat (header ! (offset + n))"
    by (rule or_byte_shift [OF small]) (use Suc.prems in simp)
  then show ?case
    by (simp add: ih le_value_append power_mult)
qed

lemma field_4:
  assumes "offset + 4 \<le> length header"
  shows "field offset 4 header
           = [header ! offset, header ! (offset + 1), header ! (offset + 2), header ! (offset + 3)]"
proof -
  have "[0..<4] = [0, 1, 2, 3]"
    by (simp add: upt_rec)
  then have "map (\<lambda>i. header ! (offset + i)) [0..<4]
               = [header ! offset, header ! (offset + 1), header ! (offset + 2),
                  header ! (offset + 3)]"
    by simp
  with field_nth [OF assms] show ?thesis
    by simp
qed

lemma le_value_field_4:
  assumes "offset + 4 \<le> length header"
  shows "le_value (field offset 4 header)
           = unat (header ! offset) + 256 * unat (header ! (offset + 1))
               + 65536 * unat (header ! (offset + 2)) + 16777216 * unat (header ! (offset + 3))"
  by (simp add: field_4 [OF assms])

text \<open>
  The fields of \<open>tcp_audio_receiver_server_loop\<close> are the little-endian values of the bytes
  at the offsets of the wire format.
\<close>

lemma header_fields_little_endian:
  assumes "HEADER_SIZE \<le> length header_buffer"
  shows "unat (sequence_number header_buffer) = le_value (field 4 4 header_buffer)"
    and "unat (first_sample_index header_buffer) = le_value (field 8 8 header_buffer)"
    and "unat (timestamp_microseconds header_buffer) = le_value (field 16 8 header_buffer)"
proof -
  have len: "34 \<le> length header_buffer"
    using assms by (simp add: HEADER_SIZE_def)
  have "le_value (field 4 4 header_buffer)
          = unat (header_buffer ! 4) + 256 * unat (header_buffer ! (4 + 1))
              + 65536 * unat (header_buffer ! (4 + 2)) + 16777216 * unat (header_buffer ! (4 + 3))"
    by (rule le_value_field_4) (use len in simp)
  then show "unat (sequence_number header_buffer) = le_value (field 4 4 header_buffer)"
    by (simp add: sequence_number_def unat_le32)
  have f8: "field 8 8 header_buffer = map (\<lambda>i. header_buffer ! (8 + i)) [0..<8]"
    by (rule field_nth) (use len in simp)
  show "unat (first_sample_index header_buffer) = le_value (field 8 8 header_buffer)"
    unfolding first_sample_index_def f8 by (rule unat_fold_le64) simp
  have f16: "field 16 8 header_buffer = map (\<lambda>i. header_buffer ! (16 + i)) [0..<8]"
    by (rule field_nth) (use len in simp)
  show "unat (timestamp_microseconds header_buffer) = le_value (field 16 8 header_buffer)"
    unfolding timestamp_microseconds_def f16 by (rule unat_fold_le64) simp
qed

text \<open>The first sample index is read alike by both loops.\<close>

lemma first_sample_index_reciver_eq:
  "first_sample_index_reciver header = first_sample_index header"
  by (simp only: first_sample_index_reciver_def first_sample_index_def)

text \<open>
  Claim C5. For every header of 34 bytes, the sequence number parsed by
  \<open>tcp_audio_receiver_server_loop\<close> is the little-endian value of the bytes 4 to 7, the
  first sample index that of the bytes 8 to 15, and the time stamp that of the bytes 16
  to 23.
\<close>

theorem header_fields_parsed_little_endian:
  assumes "length header_buffer = HEADER_SIZE"
  shows "unat (sequence_number header_buffer) = le_value (field 4 4 header_buffer)
    \<and> unat (first_sample_index header_buffer) = le_value (field 8 8 header_buffer)
    \<and> unat (timestamp_microseconds header_buffer) = le_value (field 16 8 header_buffer)"
proof -
  have "HEADER_SIZE \<le> length header_buffer"
    using assms by simp
  then show ?thesis
    by (simp only: header_fields_little_endian simp_thms)
qed

theorem header_fields_parsed_little_endian_witness:
  "length [0x32, 0x50, 0x53, 0x45, 0x04, 0x03, 0x02, 0x01,
           0x18, 0x17, 0x16, 0x15, 0x14, 0x13, 0x12, 0x11,
           0x28, 0x27, 0x26, 0x25, 0x24, 0x23, 0x22, 0x21,
           0x00, 0x04, 1, 4, 0x80, 0xBB, 0, 0, 1, 0 :: byte] = HEADER_SIZE
   \<and> unat (sequence_number
        [0x32, 0x50, 0x53, 0x45, 0x04, 0x03, 0x02, 0x01,
         0x18, 0x17, 0x16, 0x15, 0x14, 0x13, 0x12, 0x11,
         0x28, 0x27, 0x26, 0x25, 0x24, 0x23, 0x22, 0x21,
         0x00, 0x04, 1, 4, 0x80, 0xBB, 0, 0, 1, 0]) = 0x01020304
   \<and> unat (first_sample_index
        [0x32, 0x50, 0x53, 0x45, 0x04, 0x03, 0x02, 0x01,
         0x18, 0x17, 0x16, 0x15, 0x14, 0x13, 0x12, 0x11,
         0x28, 0x27, 0x26, 0x25, 0x24, 0x23, 0x22, 0x21,
         0x00, 0x04, 1, 4, 0x80, 0xBB, 0, 0, 1, 0]) = 0x1112131415161718
   \<and> unat (timestamp_microseconds
        [0x32, 0x50, 0x53, 0x45, 0x04, 0x03, 0x02, 0x01,
         0x18, 0x17, 0x16, 0x15, 0x14, 0x13, 0x12, 0x11,
         0x28, 0x27, 0x26, 0x25, 0x24, 0x23, 0x22, 0x21,
         0x00, 0x04, 1, 4, 0x80, 0xBB, 0, 0, 1, 0]) = 0x2122232425262728"
proof -
  let ?h = "[0x32, 0x50, 0x53, 0x45, 0x04, 0x03, 0x02, 0x01,
             0x18, 0x17, 0x16, 0x15, 0x14, 0x13, 0x12, 0x11,
             0x28, 0x27, 0x26, 0x25, 0x24, 0x23, 0x22, 0x21,
             0x00, 0x04, 1, 4, 0x80, 0xBB, 0, 0, 1, 0] :: byte list"
  have len: "length ?h = HEADER_SIZE"
    by (simp add: HEADER_SIZE_def)
  have f: "le_value (field 4 4 ?h) = 0x01020304"
    "le_value (field 8 8 ?h) = 0x1112131415161718"
    "le_value (field 16 8 ?h) = 0x2122232425262728"
    by (simp_all add: field_def)
  show ?thesis
    using header_fields_parsed_little_endian [OF len] len by (simp only: f simp_thms)
qed

text \<open>
  The header the streamer builds for sequence number \<open>0x01020304\<close>, first sample index
  \<open>0x1112131415161718\<close> and time stamp \<open>0x2122232425262728\<close> is the one of the example
  above. The loop of \<^verbatim>\<open>esp_audio_reciver.cpp\<close>, which no header reaches, would as written
  read its sequence number as \<open>0x01030304\<close> (byte 5 where byte 6 belongs) and its time stamp
  as the first sample index (bytes 8 to 15).
\<close>

lemma header_fields_reciver_text:
  "sendPacketTCP_header 0x01020304 0x1112131415161718 0x2122232425262728 1024
     = [0x32, 0x50, 0x53, 0x45, 0x04, 0x03, 0x02, 0x01,
        0x18, 0x17, 0x16, 0x15, 0x14, 0x13, 0x12, 0x11,
        0x28, 0x27, 0x26, 0x25, 0x24, 0x23, 0x22, 0x21,
        0x00, 0x04, 1, 4, 0x80, 0xBB, 0, 0, 1, 0]
   \<and> le_value (field 4 4
        [0x32, 0x50, 0x53, 0x45, 0x04, 0x03, 0x02, 0x01,
         0x18, 0x17, 0x16, 0x15, 0x14, 0x13, 0x12, 0x11,
         0x28, 0x27, 0x26, 0x25, 0x24, 0x23, 0x22, 0x21,
         0x00, 0x04, 1, 4, 0x80, 0xBB, 0, 0, 1, 0]) = 0x01020304
   \<and> packet_sequence
        [0x32, 0x50, 0x53, 0x45, 0x04, 0x03, 0x02, 0x01,
         0x18, 0x17, 0x16, 0x15, 0x14, 0x13, 0x12, 0x11,
         0x28, 0x27, 0x26, 0x25, 0x24, 0x23, 0x22, 0x21,
         0x00, 0x04, 1, 4, 0x80, 0xBB, 0, 0, 1, 0] = 0x01030304
   \<and> sequence_number
        [0x32, 0x50, 0x53, 0x45, 0x04, 0x03, 0x02, 0x01,
         0x18, 0x17, 0x16, 0x15, 0x14, 0x13, 0x12, 0x11,
         0x28, 0x27, 0x26, 0x25, 0x24, 0x23, 0x22, 0x21,
         0x00, 0x04, 1, 4, 0x80, 0xBB, 0, 0, 1, 0] = 0x01020304
   \<and> le_value (field 16 8
        [0x32, 0x50, 0x53, 0x45, 0x04, 0x03, 0x02, 0x01,
         0x18, 0x17, 0x16, 0x15, 0x14, 0x13, 0x12, 0x11,
         0x28, 0x27, 0x26, 0x25, 0x24, 0x23, 0x22, 0x21,
         0x00, 0x04, 1, 4, 0x80, 0xBB, 0, 0, 1, 0]) = 0x2122232425262728
   \<and> universal_timestamp
        [0x32, 0x50, 0x53, 0x45, 0x04, 0x03, 0x02, 0x01,
         0x18, 0x17, 0x16, 0x15, 0x14, 0x13, 0x12, 0x11,
         0x28, 0x27, 0x26, 0x25, 0x24, 0x23, 0x22, 0x21,
         0x00, 0x04, 1, 4, 0x80, 0xBB, 0, 0, 1, 0] = 0x1112131415161718
   \<and> timestamp_microseconds
        [0x32, 0x50, 0x53, 0x45, 0x04, 0x03, 0x02, 0x01,
         0x18, 0x17, 0x16, 0x15, 0x14, 0x13, 0x12, 0x11,
         0x28, 0x27, 0x26, 0x25, 0x24, 0x23, 0x22, 0x21,
         0x00, 0x04, 1, 4, 0x80, 0xBB, 0, 0, 1, 0] = 0x2122232425262728"
proof -
  let ?h = "[0x32, 0x50, 0x53, 0x45, 0x04, 0x03, 0x02, 0x01,
             0x18, 0x17, 0x16, 0x15, 0x14, 0x13, 0x12, 0x11,
             0x28, 0x27, 0x26, 0x25, 0x24, 0x23, 0x22, 0x21,
             0x00, 0x04, 1, 4, 0x80, 0xBB, 0, 0, 1, 0] :: byte list"
  have built: "sendPacketTCP_header 0x01020304 0x1112131415161718 0x2122232425262728 1024 = ?h"
    by (simp add: sendPacketTCP_header_def HEADER_MAGIC_def upt_conv_Cons)
  have s_spec: "le_value (field 4 4 ?h) = 0x01020304"
    by (simp add: field_def)
  have s_v1: "packet_sequence ?h = 0x01030304"
    by (simp add: packet_sequence_def)
  have s_v2: "sequence_number ?h = 0x01020304"
    by (simp add: sequence_number_def)
  have t_spec: "le_value (field 16 8 ?h) = 0x2122232425262728"
    by (simp add: field_def)
  have t_v1: "universal_timestamp ?h = 0x1112131415161718"
    by (simp add: universal_timestamp_def upt_conv_Cons)
  have t_v2: "timestamp_microseconds ?h = 0x2122232425262728"
    by (simp add: timestamp_microseconds_def upt_conv_Cons)
  show ?thesis
    by (simp only: built s_spec s_v1 s_v2 t_spec t_v1 t_v2 simp_thms)
qed

section \<open>Properties of the frame loops\<close>






















end
